theory Spec2Isabelle
  imports Main
begin

section \<open>The endowment:wasm permission specification builder\<close>

text \<open>
  The enumeration \<open>PermissionType\<close> is declared in \<^verbatim>\<open>../Permission\<close>, which is not part
  of the sources: the kinds of permission, of which the builder uses \<open>Endowment\<close>.
\<close>

datatype PermissionType = RestrictedMethod | Endowment

definition permissionName :: string where
  "permissionName = ''endowment:wasm''"

text \<open>
  \<open>WebAssemblyEndowmentSpecification\<close>: the object literal returned by the builder.
  \<open>allowedCaveats: null\<close> is \<open>None\<close>; the optional argument of the getter is an
  \<open>option\<close>.
\<close>

record 'g WebAssemblyEndowmentSpecification =
  permissionType :: PermissionType
  targetKey :: string
  allowedCaveats :: "string list option"
  endowmentGetter :: "'g option \<Rightarrow> string list"

definition specificationBuilder :: "'b option \<Rightarrow> 'g WebAssemblyEndowmentSpecification" where
  "specificationBuilder builderOptions =
     \<lparr> permissionType = Endowment,
       targetKey = permissionName,
       allowedCaveats = None,
       endowmentGetter = (\<lambda>getterOptions. [''WebAssembly'']) \<rparr>"

record ('b, 'g) EndowmentBuilder =
  builderTargetKey :: string
  builderSpecificationBuilder :: "'b option \<Rightarrow> 'g WebAssemblyEndowmentSpecification"

definition webAssemblyEndowmentBuilder :: "('b, 'g) EndowmentBuilder" where
  "webAssemblyEndowmentBuilder =
     \<lparr> builderTargetKey = permissionName,
       builderSpecificationBuilder = specificationBuilder \<rparr>"

section \<open>AddressBookController\<close>

record AddressBookEntry =
  address :: string
  name :: string
  chainId :: int
  memo :: string

record AddressBookState =
  addressBook :: "string \<rightharpoonup> AddressBookEntry"

text \<open>
  \<open>extend\<close> of the package \<^verbatim>\<open>xtend\<close>: a fresh object with the properties of the
  first argument, overridden by those of the second.
\<close>

definition extend' :: "('k \<rightharpoonup> 'v) \<Rightarrow> ('k \<rightharpoonup> 'v) \<Rightarrow> ('k \<rightharpoonup> 'v)" where
  "extend' a b = a ++ b"

text \<open>
  Modelled from the spec: \<open>update\<close> of the first-generation \<open>BaseController\<close> is not
  part of the sources. The State Store "applies partial/full replacement updates": the
  partial state \<open>{ addressBook: ab }\<close> replaces the field \<open>addressBook\<close>.
\<close>

definition update_addressBook ::
  "(string \<rightharpoonup> AddressBookEntry) \<Rightarrow> AddressBookState \<Rightarrow> AddressBookState" where
  "update_addressBook ab st = st\<lparr>addressBook := ab\<rparr>"

text \<open>
  \<open>set(address, name, chainId = 1, memo = '')\<close>. The two trailing arguments may be
  omitted (\<open>None\<close>), in which case the default initialisers apply. \<open>isValidAddress\<close>
  belongs to the package \<^verbatim>\<open>ethereumjs-util\<close> and is a parameter. The result is
  the returned boolean together with the controller state after the call.
\<close>

definition AddressBookController_set ::
  "(string \<Rightarrow> bool) \<Rightarrow> string \<Rightarrow> string \<Rightarrow> int option \<Rightarrow> string option \<Rightarrow>
   AddressBookState \<Rightarrow> bool \<times> AddressBookState" where
  "AddressBookController_set isValidAddress addr nm chainId_arg memo_arg st =
     (let chainId = (case chainId_arg of None \<Rightarrow> 1 | Some c \<Rightarrow> c);
          memo = (case memo_arg of None \<Rightarrow> [] | Some m \<Rightarrow> m)
      in if \<not> isValidAddress addr then (False, st)
         else (True,
           update_addressBook
             (extend' (addressBook st)
                [addr \<mapsto> \<lparr> address = addr, name = nm, chainId = chainId, memo = memo \<rparr>])
             st))"

section \<open>CurrencyRateController\<close>

subsection \<open>State\<close>

text \<open>
  \<open>CurrencyRateState\<close>. The numbers are only stored and copied, never computed with,
  so their type is the parameter \<open>'n\<close>. \<open>string | null\<close> is \<open>string option\<close>; the
  optional \<open>usdConversionRate\<close> is an \<open>option\<close> too.
\<close>

record 'n CurrencyRateState =
  conversionDate :: 'n
  conversionRate :: 'n
  currentCurrency :: string
  nativeCurrency :: string
  pendingCurrentCurrency :: "string option"
  pendingNativeCurrency :: "string option"
  usdConversionRate :: "'n option"

definition defaultState :: "'n::zero CurrencyRateState" where
  "defaultState =
     \<lparr> conversionDate = 0,
       conversionRate = 0,
       currentCurrency = ''usd'',
       nativeCurrency = ''ETH'',
       pendingCurrentCurrency = None,
       pendingNativeCurrency = None,
       usdConversionRate = None \<rparr>"

text \<open>
  \<open>Partial<CurrencyRateState>\<close>: every property may be absent (\<open>None\<close>).
\<close>

record 'n PartialCurrencyRateState =
  conversionDate_opt :: "'n option"
  conversionRate_opt :: "'n option"
  currentCurrency_opt :: "string option"
  nativeCurrency_opt :: "string option"
  pendingCurrentCurrency_opt :: "string option option"
  pendingNativeCurrency_opt :: "string option option"
  usdConversionRate_opt :: "'n option"

text \<open>The object spread \<open>{ ...d, ...s }\<close>: the properties present in \<open>s\<close> override \<open>d\<close>.\<close>

definition spread ::
  "'n CurrencyRateState \<Rightarrow> 'n PartialCurrencyRateState \<Rightarrow> 'n CurrencyRateState" where
  "spread d s =
     \<lparr> conversionDate = (case conversionDate_opt s of None \<Rightarrow> conversionDate d | Some v \<Rightarrow> v),
       conversionRate = (case conversionRate_opt s of None \<Rightarrow> conversionRate d | Some v \<Rightarrow> v),
       currentCurrency = (case currentCurrency_opt s of None \<Rightarrow> currentCurrency d | Some v \<Rightarrow> v),
       nativeCurrency = (case nativeCurrency_opt s of None \<Rightarrow> nativeCurrency d | Some v \<Rightarrow> v),
       pendingCurrentCurrency =
         (case pendingCurrentCurrency_opt s of None \<Rightarrow> pendingCurrentCurrency d | Some v \<Rightarrow> v),
       pendingNativeCurrency =
         (case pendingNativeCurrency_opt s of None \<Rightarrow> pendingNativeCurrency d | Some v \<Rightarrow> v),
       usdConversionRate =
         (case usdConversionRate_opt s of None \<Rightarrow> usdConversionRate d | Some v \<Rightarrow> Some v) \<rparr>"

subsection \<open>The rate source, the mutex and the pending calls\<close>

text \<open>What the promise of \<open>fetchExchangeRate\<close> resolves to, or the error it rejects with.\<close>

record 'n ExchangeRate =
  fetchedConversionDate :: 'n
  fetchedConversionRate :: 'n
  fetchedUsdConversionRate :: "'n option"

datatype error = FetchFailure string

text \<open>
  Modelled from the spec: \<open>Mutex\<close> comes from the package \<^verbatim>\<open>await-semaphore\<close>, which is
  not part of the sources. The spec calls it "an exclusive, FIFO-fair lock (only one holder
  at a time; a second caller blocks until the first releases)". It is a counter of free
  slots, initially 1, and a queue of the waiting continuations, here the indices of the
  waiting calls of \<open>updateExchangeRate\<close>.
\<close>

record Mutex =
  count :: nat
  tasks :: "nat list"

text \<open>
  A call of the asynchronous \<open>updateExchangeRate\<close> is suspended at its two \<open>await\<close>s.
  \<open>Snapshot\<close> holds the four constants destructured from \<open>this.state\<close>; a call is
  \<open>Queued\<close> while \<open>mutex.acquire()\<close> is pending, \<open>Granted\<close> once the mutex has
  resolved that promise, \<open>Fetching\<close> (with the arguments of the fetch) while the promise
  of \<open>fetchExchangeRate\<close> is pending, \<open>Settled\<close> when its own promise is resolved
  (\<open>Inr\<close>, with \<open>None\<close> for \<open>undefined\<close>) or rejected (\<open>Inl\<close>), and \<open>Done\<close>, with what
  the caller of the public method observes, once the continuation of its caller has run.
\<close>

record Snapshot =
  currentCurrency' :: string
  nativeCurrency' :: string
  pendingCurrentCurrency' :: "string option"
  pendingNativeCurrency' :: "string option"

datatype 'n pc =
    Queued
  | Granted
  | Fetching Snapshot "string \<times> string \<times> bool"
  | Settled "error + 'n CurrencyRateState option"
  | Done "error + 'n CurrencyRateState option"

datatype caller = ByPoll | BySetter | Direct

record 'n proc =
  caller :: caller
  pc :: "'n pc"

text \<open>
  The controller object (\<open>state\<close>, \<open>mutex\<close>, \<open>handle\<close>, \<open>interval\<close>,
  \<open>fetchExchangeRate\<close>, \<open>includeUsdRate\<close>) together with what it acts on: the
  state-changed events published so far, whether \<open>super.destroy()\<close> has detached it,
  the timers pending in the runtime (and the next fresh timer id), the calls of
  \<open>updateExchangeRate\<close> in the order they were made, and the log of the calls of the rate
  source. The result of the rate source depends on its arguments and on the outside
  world \<open>'env\<close> at the time its promise settles.
\<close>

record ('n, 'env) CurrencyRateController =
  state :: "'n CurrencyRateState"
  mutex :: Mutex
  handle :: "nat option"
  interval :: nat
  fetchExchangeRate :: "'env \<Rightarrow> string \<Rightarrow> string \<Rightarrow> bool \<Rightarrow> error + 'n ExchangeRate"
  includeUsdRate :: bool
  published :: "'n CurrencyRateState list"
  detached :: bool
  timers :: "nat list"
  timerSeq :: nat
  procs :: "'n proc list"
  fetchCalls :: "(string \<times> string \<times> bool) list"

subsection \<open>Collaborators\<close>

text \<open>
  Modelled from the spec: \<open>update\<close> of \<open>BaseController\<close> (base-controller-v2) is not part
  of the sources. The State Store "holds the current snapshot, applies partial/full
  replacement updates, and emits a change notification after each commit": the callback
  maps the current state to the next one, which is stored and published.
\<close>

definition update ::
  "('n CurrencyRateState \<Rightarrow> 'n CurrencyRateState) \<Rightarrow>
   ('n, 'env) CurrencyRateController \<Rightarrow> ('n, 'env) CurrencyRateController" where
  "update callback w =
     (let nextState = callback (state w)
      in w\<lparr>state := nextState, published := published w @ [nextState]\<rparr>)"

text \<open>
  Modelled from the spec: \<open>safelyExecute\<close> of \<^verbatim>\<open>../util\<close> is not part of the sources.
  It is the "non-propagating wrapper": a failure of the operation is swallowed, and the
  wrapper resolves with \<open>undefined\<close>.
\<close>

definition safelyExecute :: "error + 'a option \<Rightarrow> error + 'a option" where
  "safelyExecute r = (case r of Inl e \<Rightarrow> Inr None | Inr v \<Rightarrow> Inr v)"

text \<open>\<open>a || b\<close> for \<open>a: string | null\<close>: both \<open>null\<close> and the empty string are falsy.\<close>

definition js_or :: "string option \<Rightarrow> string \<Rightarrow> string" where
  "js_or a b = (case a of None \<Rightarrow> b | Some s \<Rightarrow> if s = [] then b else s)"

text \<open>The call \<open>p\<close> moves on to \<open>c\<close>.\<close>

definition set_pc ::
  "nat \<Rightarrow> 'n pc \<Rightarrow> ('n, 'env) CurrencyRateController \<Rightarrow> ('n, 'env) CurrencyRateController" where
  "set_pc p c w = w\<lparr>procs := (procs w)[p := (procs w ! p)\<lparr>pc := c\<rparr>]\<rparr>"

text \<open>
  Modelled from the spec: the operations of the \<open>Mutex\<close> of \<^verbatim>\<open>await-semaphore\<close>, "only
  one holder at a time; a second caller blocks until the first releases", with "strict FIFO
  admission". \<open>sched\<close> hands the lock to the longest-waiting continuation when the slot is
  free, which resolves the promise of its \<open>acquire()\<close>; the function that \<open>acquire()\<close>
  resolves with, \<open>releaseLock\<close>, frees the slot and schedules at once.
\<close>

definition sched :: "('n, 'env) CurrencyRateController \<Rightarrow> ('n, 'env) CurrencyRateController" where
  "sched w =
     (case tasks (mutex w) of
        [] \<Rightarrow> w
      | nxt # rest \<Rightarrow>
          if 0 < count (mutex w)
          then set_pc nxt Granted (w\<lparr>mutex := \<lparr>count = count (mutex w) - 1, tasks = rest\<rparr>\<rparr>)
          else w)"

definition releaseLock ::
  "('n, 'env) CurrencyRateController \<Rightarrow> ('n, 'env) CurrencyRateController" where
  "releaseLock w = sched (w\<lparr>mutex := (mutex w)\<lparr>count := count (mutex w) + 1\<rparr>\<rparr>)"

text \<open>\<open>clearTimeout\<close> of the runtime: the timer, if still pending, will not fire.\<close>

definition clearTimeout ::
  "nat \<Rightarrow> ('n, 'env) CurrencyRateController \<Rightarrow> ('n, 'env) CurrencyRateController" where
  "clearTimeout h w = w\<lparr>timers := removeAll h (timers w)\<rparr>"

subsection \<open>The methods, split at their await points\<close>

text \<open>
  \<open>updateExchangeRate()\<close> up to \<open>await this.mutex.acquire()\<close>: the call gets the next
  index, and its continuation is pushed on the queue of the mutex.
\<close>

definition updateExchangeRate_call ::
  "caller \<Rightarrow> ('n, 'env) CurrencyRateController \<Rightarrow> ('n, 'env) CurrencyRateController" where
  "updateExchangeRate_call c w =
     w\<lparr>mutex := (mutex w)\<lparr>tasks := tasks (mutex w) @ [length (procs w)]\<rparr>,
       procs := procs w @ [\<lparr>caller = c, pc = Queued\<rparr>]\<rparr>"

text \<open>
  From the resumption after \<open>acquire\<close> to \<open>await this.fetchExchangeRate(...)\<close>: the four
  constants are read from \<open>this.state\<close> and the rate source is called.
\<close>

definition updateExchangeRate_acquired ::
  "nat \<Rightarrow> ('n, 'env) CurrencyRateController \<Rightarrow> ('n, 'env) CurrencyRateController" where
  "updateExchangeRate_acquired p w =
     (let snap = \<lparr> currentCurrency' = currentCurrency (state w),
                   nativeCurrency' = nativeCurrency (state w),
                   pendingCurrentCurrency' = pendingCurrentCurrency (state w),
                   pendingNativeCurrency' = pendingNativeCurrency (state w) \<rparr>;
          args = (js_or (pendingCurrentCurrency' snap) (currentCurrency' snap),
                  js_or (pendingNativeCurrency' snap) (nativeCurrency' snap),
                  includeUsdRate w)
      in set_pc p (Fetching snap args) (w\<lparr>fetchCalls := fetchCalls w @ [args]\<rparr>))"

text \<open>
  From the settling of the fetch to the end: on success the commit, and on both paths the
  \<open>finally\<close> block. The body has no \<open>return\<close> statement, so the promise resolves with
  \<open>undefined\<close>; there is no \<open>catch\<close>, so a rejection of the fetch rejects it.
\<close>

definition updateExchangeRate_fetched ::
  "nat \<Rightarrow> Snapshot \<Rightarrow> error + 'n ExchangeRate \<Rightarrow>
   ('n, 'env) CurrencyRateController \<Rightarrow> ('n, 'env) CurrencyRateController" where
  "updateExchangeRate_fetched p snap outcome w =
     (case outcome of
        Inr r \<Rightarrow>
          set_pc p (Settled (Inr None))
            (releaseLock
              (update (\<lambda>_.
                 \<lparr> conversionDate = fetchedConversionDate r,
                   conversionRate = fetchedConversionRate r,
                   currentCurrency = js_or (pendingCurrentCurrency' snap) (currentCurrency' snap),
                   nativeCurrency = js_or (pendingNativeCurrency' snap) (nativeCurrency' snap),
                   pendingCurrentCurrency = None,
                   pendingNativeCurrency = None,
                   usdConversionRate = fetchedUsdConversionRate r \<rparr>) w))
      | Inl e \<Rightarrow> set_pc p (Settled (Inl e)) (releaseLock w))"

text \<open>
  \<open>setCurrentCurrency\<close> and \<open>setNativeCurrency\<close> up to their \<open>await\<close>: the pending
  field is written, then \<open>updateExchangeRate\<close> is called inside \<open>safelyExecute\<close>.
\<close>

definition setCurrentCurrency ::
  "string \<Rightarrow> ('n, 'env) CurrencyRateController \<Rightarrow> ('n, 'env) CurrencyRateController" where
  "setCurrentCurrency code w =
     updateExchangeRate_call BySetter
       (update (\<lambda>s. s\<lparr>pendingCurrentCurrency := Some code\<rparr>) w)"

definition setNativeCurrency ::
  "string \<Rightarrow> ('n, 'env) CurrencyRateController \<Rightarrow> ('n, 'env) CurrencyRateController" where
  "setNativeCurrency symbol w =
     updateExchangeRate_call BySetter
       (update (\<lambda>s. s\<lparr>pendingNativeCurrency := Some symbol\<rparr>) w)"

text \<open>\<open>poll\<close> up to its \<open>await\<close>: \<open>this.handle && clearTimeout(this.handle)\<close>, then the call.\<close>

definition poll :: "('n, 'env) CurrencyRateController \<Rightarrow> ('n, 'env) CurrencyRateController" where
  "poll w =
     updateExchangeRate_call ByPoll
       (case handle w of None \<Rightarrow> w | Some h \<Rightarrow> clearTimeout h w)"

text \<open>
  The rest of \<open>poll\<close>: \<open>this.handle = setTimeout(() => this.poll(), this.interval)\<close>.
  Time is left out: a pending timer can fire at any later moment.
\<close>

definition poll_reschedule ::
  "('n, 'env) CurrencyRateController \<Rightarrow> ('n, 'env) CurrencyRateController" where
  "poll_reschedule w =
     w\<lparr>handle := Some (timerSeq w),
       timers := timers w @ [timerSeq w],
       timerSeq := Suc (timerSeq w)\<rparr>"

text \<open>
  The continuation of the caller once the promise of \<open>updateExchangeRate\<close> has settled
  with \<open>r\<close>. A direct caller observes \<open>r\<close>. The setters and \<open>poll\<close> await
  \<open>safelyExecute\<close> and then finish (\<open>poll\<close> after scheduling the next tick).
\<close>

definition returned ::
  "nat \<Rightarrow> error + 'n CurrencyRateState option \<Rightarrow>
   ('n, 'env) CurrencyRateController \<Rightarrow> ('n, 'env) CurrencyRateController" where
  "returned p r w =
     (case caller (procs w ! p) of
        Direct \<Rightarrow> set_pc p (Done r) w
      | BySetter \<Rightarrow>
          (case safelyExecute r of
             Inl e \<Rightarrow> set_pc p (Done (Inl e)) w
           | Inr v \<Rightarrow> set_pc p (Done (Inr None)) w)
      | ByPoll \<Rightarrow>
          (case safelyExecute r of
             Inl e \<Rightarrow> set_pc p (Done (Inl e)) w
           | Inr v \<Rightarrow> set_pc p (Done (Inr None)) (poll_reschedule w)))"

text \<open>
  Modelled from the spec: \<open>destroy\<close> of \<open>BaseController\<close> is not part of the sources.
  Teardown is to "detach from the State Store".
\<close>

definition super_destroy ::
  "('n, 'env) CurrencyRateController \<Rightarrow> ('n, 'env) CurrencyRateController" where
  "super_destroy w = w\<lparr>detached := True\<rparr>"

text \<open>\<open>destroy\<close>: \<open>super.destroy()\<close>, then the timer of \<open>this.handle\<close>, if set, is cleared.\<close>

definition destroy :: "('n, 'env) CurrencyRateController \<Rightarrow> ('n, 'env) CurrencyRateController" where
  "destroy w =
     (let w' = super_destroy w
      in case handle w' of None \<Rightarrow> w' | Some h \<Rightarrow> clearTimeout h w')"

text \<open>
  The constructor. The optional arguments are \<open>option\<close>s with the defaults of the
  parameter list; \<open>defaultFetchExchangeRate\<close> (of \<^verbatim>\<open>../crypto-compare\<close>) is a
  parameter. The fields are initialised, then \<open>this.poll()\<close> runs up to its \<open>await\<close>.
\<close>

definition new_CurrencyRateController ::
  "('env \<Rightarrow> string \<Rightarrow> string \<Rightarrow> bool \<Rightarrow> error + 'n ExchangeRate) \<Rightarrow>
   'n PartialCurrencyRateState option \<Rightarrow> bool option \<Rightarrow>
   ('env \<Rightarrow> string \<Rightarrow> string \<Rightarrow> bool \<Rightarrow> error + 'n ExchangeRate) option \<Rightarrow>
   ('n::zero, 'env) CurrencyRateController" where
  "new_CurrencyRateController defaultFetchExchangeRate state_arg includeUsdRate_arg fetch_arg =
     poll
       \<lparr> state = (case state_arg of None \<Rightarrow> defaultState | Some s \<Rightarrow> spread defaultState s),
         mutex = \<lparr>count = 1, tasks = []\<rparr>,
         handle = None,
         interval = 180000,
         fetchExchangeRate =
           (case fetch_arg of None \<Rightarrow> defaultFetchExchangeRate | Some f \<Rightarrow> f),
         includeUsdRate = (case includeUsdRate_arg of None \<Rightarrow> False | Some b \<Rightarrow> b),
         published = [],
         detached = False,
         timers = [],
         timerSeq = 0,
         procs = [],
         fetchCalls = [] \<rparr>"

subsection \<open>Interleavings\<close>

text \<open>
  What can happen next to a controller: a public method is called (up to its first
  \<open>await\<close>), a pending timer fires and runs \<open>poll\<close>, the mutex schedules, a granted call
  resumes, the promise of a fetch settles (in the outside world \<open>env\<close>), or the
  continuation of a settled call runs. \<open>fire\<close> is \<open>None\<close> when the event cannot happen
  in that state; \<open>run\<close> fires a sequence of events, one interleaving.
\<close>

datatype 'env event =
    CallSetCurrentCurrency string
  | CallSetNativeCurrency string
  | CallUpdateExchangeRate
  | CallPoll
  | CallDestroy
  | TimerFires nat
  | MutexSched
  | Acquired nat
  | FetchSettles nat 'env
  | Returns nat

fun fire ::
  "'env event \<Rightarrow> ('n, 'env) CurrencyRateController \<Rightarrow> ('n, 'env) CurrencyRateController option" where
  "fire (CallSetCurrentCurrency code) w = Some (setCurrentCurrency code w)"
| "fire (CallSetNativeCurrency symbol) w = Some (setNativeCurrency symbol w)"
| "fire CallUpdateExchangeRate w = Some (updateExchangeRate_call Direct w)"
| "fire CallPoll w = Some (poll w)"
| "fire CallDestroy w = Some (destroy w)"
| "fire (TimerFires t) w =
     (if t \<in> set (timers w) then Some (poll (w\<lparr>timers := removeAll t (timers w)\<rparr>)) else None)"
| "fire MutexSched w = Some (sched w)"
| "fire (Acquired p) w =
     (if p < length (procs w) \<and> pc (procs w ! p) = Granted
      then Some (updateExchangeRate_acquired p w) else None)"
| "fire (FetchSettles p env) w =
     (if p < length (procs w)
      then (case pc (procs w ! p) of
              Fetching snap args \<Rightarrow>
                (case args of (quote, base, usd) \<Rightarrow>
                   Some (updateExchangeRate_fetched p snap (fetchExchangeRate w env quote base usd) w))
            | _ \<Rightarrow> None)
      else None)"
| "fire (Returns p) w =
     (if p < length (procs w)
      then (case pc (procs w ! p) of Settled r \<Rightarrow> Some (returned p r w) | _ \<Rightarrow> None)
      else None)"

fun run ::
  "'env event list \<Rightarrow> ('n, 'env) CurrencyRateController \<Rightarrow> ('n, 'env) CurrencyRateController option" where
  "run [] w = Some w"
| "run (e # es) w = (case fire e w of None \<Rightarrow> None | Some w' \<Rightarrow> run es w')"

subsection \<open>Serialisation of the refreshes\<close>

text \<open>
  A call is waiting for the lock, in its fetch-and-commit cycle (from the grant of the lock
  to its release), or past it.
\<close>

datatype phase = Waiting | InProgress | Completed

fun phase_of :: "'n pc \<Rightarrow> phase" where
  "phase_of Queued = Waiting"
| "phase_of Granted = InProgress"
| "phase_of (Fetching snap args) = InProgress"
| "phase_of (Settled r) = Completed"
| "phase_of (Done r) = Completed"

text \<open>
  The invariant behind the serialisation: with \<open>k\<close> the number of calls the mutex has
  admitted, the queue holds the calls \<open>k, k + 1, \<dots>\<close> in the order they were made, the
  calls from \<open>k\<close> on are waiting, call \<open>k - 1\<close> is in its cycle exactly when the slot
  is taken, and all earlier calls are past theirs.
\<close>

definition serial :: "'n proc list \<Rightarrow> Mutex \<Rightarrow> bool" where
  "serial ps m =
     (length (tasks m) \<le> length ps \<and>
      tasks m = [length ps - length (tasks m)..<length ps] \<and>
      count m \<le> 1 \<and>
      (count m = 0 \<longrightarrow> length (tasks m) < length ps) \<and>
      (\<forall>p<length ps.
         phase_of (pc (ps ! p)) =
           (if length ps - length (tasks m) \<le> p then Waiting
            else if Suc p = length ps - length (tasks m) \<and> count m = 0 then InProgress
            else Completed)))"

subsection \<open>Example inputs\<close>

text \<open>
  A rate source whose promise settles with whatever the outside world says, a controller
  built with the default arguments, a fetch result, and an address check (the length and
  the prefix of a hexadecimal address).
\<close>

definition exampleSource ::
  "error + int ExchangeRate \<Rightarrow> string \<Rightarrow> string \<Rightarrow> bool \<Rightarrow> error + int ExchangeRate" where
  "exampleSource env quote base usd = env"

definition exampleRate :: "int ExchangeRate" where
  "exampleRate =
     \<lparr> fetchedConversionDate = 1000, fetchedConversionRate = 91, fetchedUsdConversionRate = None \<rparr>"

definition exampleController :: "(int, error + int ExchangeRate) CurrencyRateController" where
  "exampleController = new_CurrencyRateController exampleSource None None None"

definition exampleValid :: "string \<Rightarrow> bool" where
  "exampleValid a = (length a = 42 \<and> take 2 a = ''0x'')"

text \<open>
  The committed part of the state: the confirmed pair and the rates, which only the commit
  of \<open>updateExchangeRate\<close> writes.
\<close>

definition confirmed :: "'n CurrencyRateState \<Rightarrow> 'n \<times> 'n \<times> string \<times> string \<times> 'n option" where
  "confirmed st =
     (conversionDate st, conversionRate st, currentCurrency st, nativeCurrency st,
      usdConversionRate st)"

text \<open>What each call of \<open>updateExchangeRate\<close> has come to.\<close>

definition outcomes :: "('n, 'env) CurrencyRateController \<Rightarrow> 'n pc list" where
  "outcomes w = map pc (procs w)"

section \<open>Properties\<close>

subsection \<open>Fields after each operation\<close>

lemmas model_defs =
  new_CurrencyRateController_def poll_def updateExchangeRate_call_def destroy_def
  super_destroy_def sched_def
  set_pc_def updateExchangeRate_acquired_def updateExchangeRate_fetched_def releaseLock_def
  update_def returned_def safelyExecute_def poll_reschedule_def clearTimeout_def
  setCurrentCurrency_def setNativeCurrency_def Let_def

lemmas example_defs =
  exampleSource_def exampleRate_def exampleController_def defaultState_def js_or_def outcomes_def

lemma set_pc_fields [simp]:
  "state (set_pc p c w) = state w"
  "mutex (set_pc p c w) = mutex w"
  "handle (set_pc p c w) = handle w"
  "interval (set_pc p c w) = interval w"
  "fetchExchangeRate (set_pc p c w) = fetchExchangeRate w"
  "includeUsdRate (set_pc p c w) = includeUsdRate w"
  "published (set_pc p c w) = published w"
  "detached (set_pc p c w) = detached w"
  "timers (set_pc p c w) = timers w"
  "timerSeq (set_pc p c w) = timerSeq w"
  "fetchCalls (set_pc p c w) = fetchCalls w"
  "procs (set_pc p c w) = (procs w)[p := (procs w ! p)\<lparr>pc := c\<rparr>]"
  by (simp_all add: set_pc_def)

lemma sched_fields [simp]:
  "state (sched w) = state w"
  "handle (sched w) = handle w"
  "interval (sched w) = interval w"
  "fetchExchangeRate (sched w) = fetchExchangeRate w"
  "includeUsdRate (sched w) = includeUsdRate w"
  "published (sched w) = published w"
  "detached (sched w) = detached w"
  "timers (sched w) = timers w"
  "timerSeq (sched w) = timerSeq w"
  "fetchCalls (sched w) = fetchCalls w"
  "length (procs (sched w)) = length (procs w)"
  by (simp_all add: sched_def split: list.splits)

lemma releaseLock_fields [simp]:
  "state (releaseLock w) = state w"
  "handle (releaseLock w) = handle w"
  "interval (releaseLock w) = interval w"
  "fetchExchangeRate (releaseLock w) = fetchExchangeRate w"
  "includeUsdRate (releaseLock w) = includeUsdRate w"
  "published (releaseLock w) = published w"
  "detached (releaseLock w) = detached w"
  "timers (releaseLock w) = timers w"
  "timerSeq (releaseLock w) = timerSeq w"
  "fetchCalls (releaseLock w) = fetchCalls w"
  "length (procs (releaseLock w)) = length (procs w)"
  by (simp_all add: releaseLock_def)

lemma update_fields [simp]:
  "state (update g w) = g (state w)"
  "mutex (update g w) = mutex w"
  "handle (update g w) = handle w"
  "interval (update g w) = interval w"
  "fetchExchangeRate (update g w) = fetchExchangeRate w"
  "includeUsdRate (update g w) = includeUsdRate w"
  "published (update g w) = published w @ [g (state w)]"
  "detached (update g w) = detached w"
  "timers (update g w) = timers w"
  "timerSeq (update g w) = timerSeq w"
  "fetchCalls (update g w) = fetchCalls w"
  "procs (update g w) = procs w"
  by (simp_all add: update_def Let_def)

lemma call_fields [simp]:
  "state (updateExchangeRate_call c w) = state w"
  "mutex (updateExchangeRate_call c w) = (mutex w)\<lparr>tasks := tasks (mutex w) @ [length (procs w)]\<rparr>"
  "handle (updateExchangeRate_call c w) = handle w"
  "interval (updateExchangeRate_call c w) = interval w"
  "fetchExchangeRate (updateExchangeRate_call c w) = fetchExchangeRate w"
  "includeUsdRate (updateExchangeRate_call c w) = includeUsdRate w"
  "published (updateExchangeRate_call c w) = published w"
  "detached (updateExchangeRate_call c w) = detached w"
  "timers (updateExchangeRate_call c w) = timers w"
  "timerSeq (updateExchangeRate_call c w) = timerSeq w"
  "fetchCalls (updateExchangeRate_call c w) = fetchCalls w"
  "procs (updateExchangeRate_call c w) = procs w @ [\<lparr>caller = c, pc = Queued\<rparr>]"
  by (simp_all add: updateExchangeRate_call_def)

lemma poll_reschedule_fields [simp]:
  "state (poll_reschedule w) = state w"
  "mutex (poll_reschedule w) = mutex w"
  "handle (poll_reschedule w) = Some (timerSeq w)"
  "interval (poll_reschedule w) = interval w"
  "fetchExchangeRate (poll_reschedule w) = fetchExchangeRate w"
  "includeUsdRate (poll_reschedule w) = includeUsdRate w"
  "published (poll_reschedule w) = published w"
  "detached (poll_reschedule w) = detached w"
  "timers (poll_reschedule w) = timers w @ [timerSeq w]"
  "timerSeq (poll_reschedule w) = Suc (timerSeq w)"
  "fetchCalls (poll_reschedule w) = fetchCalls w"
  "procs (poll_reschedule w) = procs w"
  by (simp_all add: poll_reschedule_def)

lemma caller_list_update [simp]:
  "caller (ps[p := (ps ! p)\<lparr>pc := c\<rparr>] ! q) = caller (ps ! q)"
  by (cases "p < length ps"; cases "p = q") (simp_all add: list_update_beyond)

lemma sched_caller [simp]: "caller (procs (sched w) ! q) = caller (procs w ! q)"
  by (cases "tasks (mutex w)") (simp_all add: sched_def)

lemma releaseLock_caller [simp]: "caller (procs (releaseLock w) ! q) = caller (procs w ! q)"
  by (simp add: releaseLock_def)

subsection \<open>The invariant is kept by every event\<close>

lemma serial_call:
  assumes "serial ps m"
  shows "serial (ps @ [\<lparr>caller = c, pc = Queued\<rparr>]) (m\<lparr>tasks := tasks m @ [length ps]\<rparr>)"
proof -
  let ?k = "length ps - length (tasks m)"
  from assms have le: "length (tasks m) \<le> length ps" and t: "tasks m = [?k..<length ps]"
    by (simp_all add: serial_def)
  have k: "Suc (length ps) - Suc (length (tasks m)) = ?k" by simp
  have "tasks m @ [length ps] = [?k..<Suc (length ps)]"
    using t le by simp
  with assms le show ?thesis
    by (auto simp: serial_def nth_append less_Suc_eq)
qed

lemma serial_grant:
  assumes "serial ps m" and "tasks m = nxt # rest" and "0 < count m"
  shows "serial (ps[nxt := (ps ! nxt)\<lparr>pc := Granted\<rparr>]) \<lparr>count = count m - 1, tasks = rest\<rparr>"
proof -
  define k where "k = length ps - length (tasks m)"
  from assms(1) have le: "length (tasks m) \<le> length ps" and t: "tasks m = [k..<length ps]"
    and c: "count m \<le> 1"
    and ph: "\<forall>p<length ps. phase_of (pc (ps ! p)) =
           (if k \<le> p then Waiting
            else if Suc p = k \<and> count m = 0 then InProgress
            else Completed)"
    by (simp_all add: serial_def k_def)
  from t assms(2) have "[k..<length ps] = nxt # rest" by simp
  then have lt: "k < length ps" and nxt: "nxt = k" and rest: "rest = [Suc k..<length ps]"
    by (auto simp: upt_eq_Cons_conv)
  have k': "length ps - length rest = Suc k" using lt rest by simp
  show ?thesis
    unfolding serial_def
    using assms(3) c lt ph
    by (auto simp: k' nxt rest nth_list_update less_Suc_eq)
qed

lemma serial_same_phase:
  assumes "serial ps m" and "p < length ps" and "phase_of c = phase_of (pc (ps ! p))"
  shows "serial (ps[p := (ps ! p)\<lparr>pc := c\<rparr>]) m"
  using assms by (auto simp: serial_def nth_list_update)

lemma serial_in_progress:
  assumes "serial ps m" and "p < length ps" and "phase_of (pc (ps ! p)) = InProgress"
  shows "Suc p = length ps - length (tasks m) \<and> count m = 0"
  using assms by (auto simp: serial_def split: if_splits)

lemma serial_settle:
  assumes "serial ps m" and "p < length ps" and "phase_of (pc (ps ! p)) = InProgress"
  shows "serial (ps[p := (ps ! p)\<lparr>pc := Settled r\<rparr>]) (m\<lparr>count := count m + 1\<rparr>)"
proof -
  from serial_in_progress [OF assms] have "Suc p = length ps - length (tasks m)" "count m = 0"
    by simp_all
  with assms(1,2) show ?thesis
    by (auto simp: serial_def nth_list_update)
qed


lemma serial_sched:
  assumes "serial (procs w) (mutex w)"
  shows "serial (procs (sched w)) (mutex (sched w))"
proof (cases "tasks (mutex w)")
  case Nil
  with assms show ?thesis by (simp add: sched_def)
next
  case (Cons nxt rest)
  show ?thesis
  proof (cases "0 < count (mutex w)")
    case True
    with Cons serial_grant [OF assms Cons True] show ?thesis
      by (simp add: sched_def)
  next
    case False
    with Cons assms show ?thesis by (simp add: sched_def)
  qed
qed

lemma sched_set_pc:
  assumes "p \<notin> set (tasks (mutex w))"
  shows "procs (set_pc p c (sched w)) = procs (sched (set_pc p c w))"
    and "mutex (set_pc p c (sched w)) = mutex (sched (set_pc p c w))"
  using assms
  by (auto simp: sched_def list_update_swap split: list.splits)

lemma serial_released:
  assumes "serial (procs w) (mutex w)" and "p < length (procs w)"
    and "phase_of (pc (procs w ! p)) = InProgress"
  shows "serial (procs (set_pc p (Settled r) (releaseLock w)))
           (mutex (set_pc p (Settled r) (releaseLock w)))"
proof -
  let ?v = "w\<lparr>mutex := (mutex w)\<lparr>count := count (mutex w) + 1\<rparr>\<rparr>"
  from serial_in_progress [OF assms] have k: "Suc p = length (procs w) - length (tasks (mutex w))"
    by simp
  from assms(1) have "tasks (mutex w) = [length (procs w) - length (tasks (mutex w))..<length (procs w)]"
    by (simp add: serial_def)
  with k have "tasks (mutex w) = [Suc p..<length (procs w)]" by simp
  then have notin: "p \<notin> set (tasks (mutex ?v))" by simp
  have "serial (procs (set_pc p (Settled r) ?v)) (mutex (set_pc p (Settled r) ?v))"
    using serial_settle [OF assms] by simp
  then have "serial (procs (sched (set_pc p (Settled r) ?v))) (mutex (sched (set_pc p (Settled r) ?v)))"
    by (rule serial_sched)
  then show ?thesis
    unfolding releaseLock_def sched_set_pc [OF notin] .
qed

lemma serial_fire:
  assumes "serial (procs w) (mutex w)" and "fire ev w = Some w'"
  shows "serial (procs w') (mutex w')"
proof (cases ev)
  case (CallSetCurrentCurrency code)
  with assms serial_call [of "procs w" "mutex w" BySetter] show ?thesis
    by (auto simp: setCurrentCurrency_def)
next
  case (CallSetNativeCurrency symbol)
  with assms serial_call [of "procs w" "mutex w" BySetter] show ?thesis
    by (auto simp: setNativeCurrency_def)
next
  case CallUpdateExchangeRate
  with assms serial_call [of "procs w" "mutex w" Direct] show ?thesis
    by auto
next
  case CallPoll
  with assms serial_call [of "procs w" "mutex w" ByPoll] show ?thesis
    by (auto simp: poll_def clearTimeout_def split: option.splits)
next
  case CallDestroy
  with assms show ?thesis
    by (auto simp: destroy_def super_destroy_def clearTimeout_def Let_def split: option.splits)
next
  case (TimerFires t)
  with assms serial_call [of "procs w" "mutex w" ByPoll] show ?thesis
    by (auto simp: poll_def clearTimeout_def split: option.splits if_splits)
next
  case MutexSched
  with assms serial_sched [of w] show ?thesis by auto
next
  case (Acquired p)
  with assms serial_same_phase [of "procs w" "mutex w" p "Fetching snap args" for snap args]
  show ?thesis
    by (auto simp: updateExchangeRate_acquired_def Let_def split: if_splits)
next
  case (FetchSettles p env)
  with assms(2) obtain snap args where p: "p < length (procs w)"
    and pc: "pc (procs w ! p) = Fetching snap args"
    by (auto split: if_splits pc.splits)
  obtain quote base usd where args: "args = (quote, base, usd)" by (cases args)
  from pc have ph: "phase_of (pc (procs w ! p)) = InProgress" by simp
  show ?thesis
  proof (cases "fetchExchangeRate w env quote base usd")
    case (Inl e)
    with assms(2) FetchSettles p pc args
    have "w' = set_pc p (Settled (Inl e)) (releaseLock w)"
      by (simp add: updateExchangeRate_fetched_def)
    with serial_released [OF assms(1) p ph] show ?thesis by simp
  next
    case (Inr r)
    with assms(2) FetchSettles p pc args
    obtain g where w': "w' = set_pc p (Settled (Inr None)) (releaseLock (update g w))"
      by (auto simp: updateExchangeRate_fetched_def)
    have "serial (procs (update g w)) (mutex (update g w))" using assms(1) by simp
    from serial_released [OF this, of p] p ph w' show ?thesis by simp
  qed
next
  case (Returns p)
  with assms(2) obtain r where p: "p < length (procs w)"
    and pc: "pc (procs w ! p) = Settled r"
    by (auto split: if_splits pc.splits)
  have same: "serial ((procs w)[p := (procs w ! p)\<lparr>pc := Done r'\<rparr>]) (mutex w)" for r'
    using serial_same_phase [OF assms(1) p, of "Done r'"] pc by simp
  from assms(2) Returns p pc same show ?thesis
    by (auto simp: returned_def poll_reschedule_def split: caller.splits sum.splits)
qed

lemma serial_run:
  assumes "serial (procs w) (mutex w)" and "run es w = Some w'"
  shows "serial (procs w') (mutex w')"
  using assms
proof (induction es arbitrary: w)
  case Nil
  then show ?case by simp
next
  case (Cons e es)
  then show ?case
    by (auto split: option.splits dest: serial_fire)
qed

lemma serial_new: "serial (procs (new_CurrencyRateController d s i f)) (mutex (new_CurrencyRateController d s i f))"
  by (simp add: new_CurrencyRateController_def poll_def serial_def)

lemma filter_upt_from: "k \<le> n \<Longrightarrow> filter (\<lambda>p. k \<le> p) [0..<n] = [k..<n]"
proof (induction n)
  case 0
  then show ?case by simp
next
  case (Suc n)
  show ?case
  proof (cases "k = Suc n")
    case True
    then have "filter (\<lambda>p. k \<le> p) [0..<n] = []" by (auto simp: filter_empty_conv)
    with True show ?thesis by simp
  next
    case False
    with Suc show ?thesis by simp
  qed
qed

lemma serial_queue:
  assumes "serial ps m"
  shows "tasks m = filter (\<lambda>p. phase_of (pc (ps ! p)) = Waiting) [0..<length ps]"
proof -
  let ?k = "length ps - length (tasks m)"
  have "filter (\<lambda>p. phase_of (pc (ps ! p)) = Waiting) [0..<length ps] =
        filter (\<lambda>p. ?k \<le> p) [0..<length ps]"
    using assms by (intro filter_cong) (auto simp: serial_def)
  also have "\<dots> = [?k..<length ps]" by (rule filter_upt_from) simp
  also have "\<dots> = tasks m" using assms by (simp add: serial_def)
  finally show ?thesis by simp
qed


subsection \<open>While a fetch is in flight\<close>

lemma fetching_step:
  assumes ser: "serial (procs w) (mutex w)"
    and p: "p < length (procs w)"
    and pc: "pc (procs w ! p) = Fetching snap args"
    and ev: "\<forall>env. ev \<noteq> FetchSettles p env"
    and fire: "fire ev w = Some w'"
  shows "p < length (procs w') \<and> pc (procs w' ! p) = Fetching snap args \<and>
         confirmed (state w') = confirmed (state w) \<and>
         fetchCalls w' = fetchCalls w \<and>
         fetchExchangeRate w' = fetchExchangeRate w \<and>
         includeUsdRate w' = includeUsdRate w \<and>
         ((\<forall>c. ev \<noteq> CallSetCurrentCurrency c \<and> ev \<noteq> CallSetNativeCurrency c) \<longrightarrow>
            state w' = state w) \<and>
         (\<exists>sts. published w' = published w @ sts \<and>
            (\<forall>st\<in>set sts. confirmed st = confirmed (state w)))"
proof -
  from pc have ph: "phase_of (pc (procs w ! p)) = InProgress" by simp
  from serial_in_progress [OF ser p ph] have cnt: "count (mutex w) = 0" by simp
  have only: "q = p" if "q < length (procs w)" "phase_of (pc (procs w ! q)) = InProgress" for q
    using serial_in_progress [OF ser that] serial_in_progress [OF ser p ph] by simp
  show ?thesis
  proof (cases ev)
    case (CallSetCurrentCurrency code)
    with fire p pc show ?thesis
      by (auto simp: setCurrentCurrency_def confirmed_def nth_append)
  next
    case (CallSetNativeCurrency symbol)
    with fire p pc show ?thesis
      by (auto simp: setNativeCurrency_def confirmed_def nth_append)
  next
    case CallUpdateExchangeRate
    with fire p pc show ?thesis by (auto simp: nth_append)
  next
    case CallPoll
    with fire p pc show ?thesis
      by (auto simp: poll_def clearTimeout_def nth_append split: option.splits)
  next
    case CallDestroy
    with fire p pc show ?thesis
      by (auto simp: destroy_def super_destroy_def clearTimeout_def Let_def split: option.splits)
  next
    case (TimerFires t)
    with fire p pc show ?thesis
      by (auto simp: poll_def clearTimeout_def nth_append split: option.splits if_splits)
  next
    case MutexSched
    with fire cnt have "w' = w" by (auto simp: sched_def split: list.splits)
    with p pc show ?thesis by simp
  next
    case (Acquired q)
    with fire have "q < length (procs w)" "pc (procs w ! q) = Granted"
      by (auto split: if_splits)
    with only [of q] pc show ?thesis by simp
  next
    case (FetchSettles q env)
    with fire obtain snap' args' where "q < length (procs w)"
      "pc (procs w ! q) = Fetching snap' args'"
      by (auto split: if_splits pc.splits)
    with only [of q] ev FetchSettles show ?thesis by simp
  next
    case (Returns q)
    with fire obtain r where q: "q < length (procs w)" "pc (procs w ! q) = Settled r"
      by (auto split: if_splits pc.splits)
    with pc have "q \<noteq> p" by auto
    with fire Returns q p pc show ?thesis
      by (auto simp: returned_def poll_reschedule_def confirmed_def
               split: caller.splits sum.splits)
  qed
qed

lemma fetching_run:
  assumes "serial (procs w) (mutex w)"
    and "p < length (procs w)"
    and "pc (procs w ! p) = Fetching snap args"
    and "\<forall>env. FetchSettles p env \<notin> set es"
    and "run es w = Some w'"
  shows "p < length (procs w') \<and> pc (procs w' ! p) = Fetching snap args \<and>
         confirmed (state w') = confirmed (state w) \<and>
         fetchCalls w' = fetchCalls w \<and>
         fetchExchangeRate w' = fetchExchangeRate w \<and>
         includeUsdRate w' = includeUsdRate w \<and>
         ((\<forall>c. CallSetCurrentCurrency c \<notin> set es \<and> CallSetNativeCurrency c \<notin> set es) \<longrightarrow>
            state w' = state w) \<and>
         (\<exists>sts. published w' = published w @ sts \<and>
            (\<forall>st\<in>set sts. confirmed st = confirmed (state w)))"
  using assms
proof (induction es arbitrary: w)
  case Nil
  then show ?case by simp
next
  case (Cons e es)
  from Cons.prems(5) obtain v where e: "fire e w = Some v" and es: "run es v = Some w'"
    by (auto split: option.splits)
  from Cons.prems(4) have ne: "\<forall>env. e \<noteq> FetchSettles p env"
    and rest: "\<forall>env. FetchSettles p env \<notin> set es" by auto
  note step = fetching_step [OF Cons.prems(1-3) ne e]
  have "serial (procs v) (mutex v)" using Cons.prems(1) e by (rule serial_fire)
  from step obtain sts1 where pub1: "published v = published w @ sts1"
    "\<forall>st\<in>set sts1. confirmed st = confirmed (state w)"
    by blast
  from step have conf: "confirmed (state v) = confirmed (state w)" by simp
  from step have pv: "p < length (procs v)" "pc (procs v ! p) = Fetching snap args"
    by simp_all
  note ih = Cons.IH [OF \<open>serial (procs v) (mutex v)\<close> pv rest es]
  from ih obtain sts2 where pub2: "published w' = published v @ sts2"
    "\<forall>st\<in>set sts2. confirmed st = confirmed (state v)"
    by blast
  from pub1 pub2 conf have "published w' = published w @ (sts1 @ sts2) \<and>
      (\<forall>st\<in>set (sts1 @ sts2). confirmed st = confirmed (state w))"
    by auto
  then have "\<exists>sts. published w' = published w @ sts \<and>
      (\<forall>st\<in>set sts. confirmed st = confirmed (state w))" by blast
  with ih step show ?case by auto
qed


lemma acquired_step:
  assumes "fire (Acquired p) w = Some w'"
  shows "p < length (procs w') \<and>
         pc (procs w' ! p) =
           Fetching \<lparr> currentCurrency' = currentCurrency (state w),
                      nativeCurrency' = nativeCurrency (state w),
                      pendingCurrentCurrency' = pendingCurrentCurrency (state w),
                      pendingNativeCurrency' = pendingNativeCurrency (state w) \<rparr>
                    (js_or (pendingCurrentCurrency (state w)) (currentCurrency (state w)),
                     js_or (pendingNativeCurrency (state w)) (nativeCurrency (state w)),
                     includeUsdRate w) \<and>
         state w' = state w \<and> published w' = published w \<and>
         fetchExchangeRate w' = fetchExchangeRate w \<and> includeUsdRate w' = includeUsdRate w"
  using assms
  by (auto simp: updateExchangeRate_acquired_def Let_def split: if_splits)

lemma refresh_in_flight:
  assumes reach: "run es0 (new_CurrencyRateController d s i f) = Some w0"
    and acq: "fire (Acquired p) w0 = Some w1"
    and mid: "run es w1 = Some w2"
    and other: "\<forall>env. FetchSettles p env \<notin> set es"
  shows "serial (procs w2) (mutex w2) \<and> p < length (procs w2) \<and>
         pc (procs w2 ! p) =
           Fetching \<lparr> currentCurrency' = currentCurrency (state w0),
                      nativeCurrency' = nativeCurrency (state w0),
                      pendingCurrentCurrency' = pendingCurrentCurrency (state w0),
                      pendingNativeCurrency' = pendingNativeCurrency (state w0) \<rparr>
                    (js_or (pendingCurrentCurrency (state w0)) (currentCurrency (state w0)),
                     js_or (pendingNativeCurrency (state w0)) (nativeCurrency (state w0)),
                     includeUsdRate w0) \<and>
         confirmed (state w2) = confirmed (state w0) \<and>
         fetchCalls w2 = fetchCalls w1 \<and>
         fetchExchangeRate w2 = fetchExchangeRate w0 \<and>
         includeUsdRate w2 = includeUsdRate w0 \<and>
         ((\<forall>c. CallSetCurrentCurrency c \<notin> set es \<and> CallSetNativeCurrency c \<notin> set es) \<longrightarrow>
            state w2 = state w0) \<and>
         (\<exists>sts. published w2 = published w0 @ sts \<and>
            (\<forall>st\<in>set sts. confirmed st = confirmed (state w0)))"
proof -
  have ser0: "serial (procs w0) (mutex w0)" using serial_new reach by (rule serial_run)
  then have ser1: "serial (procs w1) (mutex w1)" using acq by (rule serial_fire)
  then have ser2: "serial (procs w2) (mutex w2)" using mid by (rule serial_run)
  note a = acquired_step [OF acq]
  from a have p1: "p < length (procs w1)" by simp
  from a have pc1: "pc (procs w1 ! p) =
           Fetching \<lparr> currentCurrency' = currentCurrency (state w0),
                      nativeCurrency' = nativeCurrency (state w0),
                      pendingCurrentCurrency' = pendingCurrentCurrency (state w0),
                      pendingNativeCurrency' = pendingNativeCurrency (state w0) \<rparr>
                    (js_or (pendingCurrentCurrency (state w0)) (currentCurrency (state w0)),
                     js_or (pendingNativeCurrency (state w0)) (nativeCurrency (state w0)),
                     includeUsdRate w0)" by simp
  from fetching_run [OF ser1 p1 pc1 other mid] a ser2 show ?thesis by simp
qed

lemma settle_success:
  assumes "p < length (procs w)"
    and "pc (procs w ! p) = Fetching snap (quote, base, usd)"
    and "fetchExchangeRate w env quote base usd = Inr r"
  shows "\<exists>w'. fire (FetchSettles p env) w = Some w' \<and>
           state w' =
             \<lparr> conversionDate = fetchedConversionDate r,
               conversionRate = fetchedConversionRate r,
               currentCurrency = js_or (pendingCurrentCurrency' snap) (currentCurrency' snap),
               nativeCurrency = js_or (pendingNativeCurrency' snap) (nativeCurrency' snap),
               pendingCurrentCurrency = None,
               pendingNativeCurrency = None,
               usdConversionRate = fetchedUsdConversionRate r \<rparr> \<and>
           published w' = published w @ [state w'] \<and>
           pc (procs w' ! p) = Settled (Inr None)"
  using assms by (simp add: updateExchangeRate_fetched_def)

lemma settle_failure:
  assumes "p < length (procs w)"
    and "pc (procs w ! p) = Fetching snap (quote, base, usd)"
    and "fetchExchangeRate w env quote base usd = Inl e"
  shows "\<exists>w'. fire (FetchSettles p env) w = Some w' \<and>
           state w' = state w \<and> published w' = published w \<and>
           pc (procs w' ! p) = Settled (Inl e) \<and>
           (case tasks (mutex w) of
              [] \<Rightarrow> mutex w' = \<lparr>count = count (mutex w) + 1, tasks = []\<rparr>
            | nxt # rest \<Rightarrow>
                mutex w' = \<lparr>count = count (mutex w), tasks = rest\<rparr> \<and>
                (nxt < length (procs w) \<and> nxt \<noteq> p \<longrightarrow> pc (procs w' ! nxt) = Granted))"
  using assms
  by (simp add: updateExchangeRate_fetched_def releaseLock_def sched_def split: list.splits)

subsection \<open>Serialisation (claim C1)\<close>

text \<open>
  C1. In every state the controller can reach from its construction, by any sequence of
  timer ticks, calls of the public methods, steps of the mutex, and fetches that resolve or
  reject: at most one call of \<open>updateExchangeRate\<close> is in its fetch-and-commit cycle;
  a call is admitted to its cycle only when every call made before it is past its own, so
  the cycles run one after the other in the order the calls reached the mutex; and the
  queue of the mutex holds exactly the waiting calls, in that order.
\<close>

theorem refreshes_serialized:
  assumes "run es (new_CurrencyRateController d s i f) = Some w"
  shows "(\<forall>p q. p < length (procs w) \<and> q < length (procs w) \<and>
            phase_of (pc (procs w ! p)) = InProgress \<and>
            phase_of (pc (procs w ! q)) = InProgress \<longrightarrow> p = q) \<and>
         (\<forall>p q. p < q \<and> q < length (procs w) \<and> phase_of (pc (procs w ! q)) \<noteq> Waiting \<longrightarrow>
            phase_of (pc (procs w ! p)) = Completed) \<and>
         tasks (mutex w) =
           filter (\<lambda>p. phase_of (pc (procs w ! p)) = Waiting) [0..<length (procs w)]"
proof -
  have ser: "serial (procs w) (mutex w)"
    using serial_new assms by (rule serial_run)
  have excl: "p = q" if "p < length (procs w)" "q < length (procs w)"
      "phase_of (pc (procs w ! p)) = InProgress" "phase_of (pc (procs w ! q)) = InProgress" for p q
    using serial_in_progress [OF ser that(1,3)] serial_in_progress [OF ser that(2,4)] by simp
  have fifo: "phase_of (pc (procs w ! p)) = Completed"
    if "p < q" "q < length (procs w)" "phase_of (pc (procs w ! q)) \<noteq> Waiting" for p q
    using ser that by (auto simp: serial_def split: if_splits)
  from excl fifo serial_queue [OF ser] show ?thesis by blast
qed

text \<open>
  A tick and two currency changes: the first call has failed, the second is fetching, the
  third waits.
\<close>

theorem refreshes_serialized_witness:
  "\<exists>w. run [CallSetCurrentCurrency ''eur'', MutexSched, Acquired 0,
            CallSetNativeCurrency ''BTC'', FetchSettles 0 (Inl (FetchFailure ''down'')),
            Acquired 1] exampleController = Some w \<and>
       length (procs w) = 3 \<and>
       phase_of (pc (procs w ! 0)) = Completed \<and>
       phase_of (pc (procs w ! 1)) = InProgress \<and>
       phase_of (pc (procs w ! 2)) = Waiting \<and>
       tasks (mutex w) = [2]"
proof -
  obtain w where w: "run [CallSetCurrentCurrency ''eur'', MutexSched, Acquired 0,
            CallSetNativeCurrency ''BTC'', FetchSettles 0 (Inl (FetchFailure ''down'')),
            Acquired 1] (new_CurrencyRateController exampleSource None None None) = Some w"
    and shape: "length (procs w) = 3" "phase_of (pc (procs w ! 1)) = InProgress"
      "phase_of (pc (procs w ! 2)) = Waiting"
    by (simp add: model_defs example_defs)
  from refreshes_serialized [OF w]
  have fifo: "\<forall>p q. p < q \<and> q < length (procs w) \<and> phase_of (pc (procs w ! q)) \<noteq> Waiting \<longrightarrow>
            phase_of (pc (procs w ! p)) = Completed"
    and queue: "tasks (mutex w) =
           filter (\<lambda>p. phase_of (pc (procs w ! p)) = Waiting) [0..<length (procs w)]"
    by blast+
  from fifo [rule_format, of 0 1] shape have "phase_of (pc (procs w ! 0)) = Completed"
    by simp
  moreover from queue shape
  have "tasks (mutex w) = filter (\<lambda>p. phase_of (pc (procs w ! p)) = Waiting) [0..<3]"
    by simp
  moreover have "[0..<3] = [0, 1, 2::nat]" by (simp add: upt_rec)
  ultimately show ?thesis
    using w shape by (auto simp: exampleController_def)
qed

subsection \<open>A refresh whose fetch succeeds (claim C2)\<close>

text \<open>
  C2. Take any run of \<open>updateExchangeRate\<close>: the controller has reached \<open>w0\<close>, the call
  \<open>p\<close> resumes there with the lock, anything else happens meanwhile (\<open>es\<close>), and the fetch
  resolves with \<open>r\<close>. Until then the committed fields are those of \<open>w0\<close>, in the state
  and in every state published meanwhile. The settling replaces the state in one update,
  published once: the currencies are the pair resolved at \<open>w0\<close>, the rates and the date
  are those of \<open>r\<close>, and both pending fields are \<open>null\<close>.
\<close>

theorem commit_on_success:
  assumes reach: "run es0 (new_CurrencyRateController d s i f) = Some w0"
    and acq: "fire (Acquired p) w0 = Some w1"
    and mid: "run es w1 = Some w2"
    and other: "\<forall>env. FetchSettles p env \<notin> set es"
    and ok: "fetchExchangeRate w0 env
               (js_or (pendingCurrentCurrency (state w0)) (currentCurrency (state w0)))
               (js_or (pendingNativeCurrency (state w0)) (nativeCurrency (state w0)))
               (includeUsdRate w0) = Inr r"
  shows "confirmed (state w2) = confirmed (state w0) \<and>
         (\<exists>sts. published w2 = published w0 @ sts \<and>
            (\<forall>st\<in>set sts. confirmed st = confirmed (state w0))) \<and>
         (\<exists>w3. fire (FetchSettles p env) w2 = Some w3 \<and>
            state w3 =
              \<lparr> conversionDate = fetchedConversionDate r,
                conversionRate = fetchedConversionRate r,
                currentCurrency =
                  js_or (pendingCurrentCurrency (state w0)) (currentCurrency (state w0)),
                nativeCurrency =
                  js_or (pendingNativeCurrency (state w0)) (nativeCurrency (state w0)),
                pendingCurrentCurrency = None,
                pendingNativeCurrency = None,
                usdConversionRate = fetchedUsdConversionRate r \<rparr> \<and>
            published w3 = published w2 @ [state w3])"
proof -
  note fl = refresh_in_flight [OF reach acq mid other]
  from fl have p: "p < length (procs w2)" by simp
  from fl ok have ok2: "fetchExchangeRate w2 env
               (js_or (pendingCurrentCurrency (state w0)) (currentCurrency (state w0)))
               (js_or (pendingNativeCurrency (state w0)) (nativeCurrency (state w0)))
               (includeUsdRate w0) = Inr r" by simp
  from fl have pc: "pc (procs w2 ! p) =
           Fetching \<lparr> currentCurrency' = currentCurrency (state w0),
                      nativeCurrency' = nativeCurrency (state w0),
                      pendingCurrentCurrency' = pendingCurrentCurrency (state w0),
                      pendingNativeCurrency' = pendingNativeCurrency (state w0) \<rparr>
                    (js_or (pendingCurrentCurrency (state w0)) (currentCurrency (state w0)),
                     js_or (pendingNativeCurrency (state w0)) (nativeCurrency (state w0)),
                     includeUsdRate w0)" by simp
  from settle_success [OF p pc ok2] fl show ?thesis by auto
qed

text \<open>
  Both currencies are switched, a third request arrives during the fetch, and the fetch
  resolves: one commit to the pair \<open>(eur, BTC)\<close>.
\<close>

theorem commit_on_success_witness:
  "\<exists>w0 w1 w2 w3.
     run [CallSetCurrentCurrency ''eur'', CallSetNativeCurrency ''BTC'', MutexSched]
       exampleController = Some w0 \<and>
     fire (Acquired 0) w0 = Some w1 \<and>
     run [CallSetCurrentCurrency ''gbp''] w1 = Some w2 \<and>
     fire (FetchSettles 0 (Inr exampleRate)) w2 = Some w3 \<and>
     state w3 =
       \<lparr> conversionDate = 1000, conversionRate = 91, currentCurrency = ''eur'',
         nativeCurrency = ''BTC'', pendingCurrentCurrency = None,
         pendingNativeCurrency = None, usdConversionRate = None \<rparr> \<and>
     published w3 = published w2 @ [state w3]"
proof -
  define w0 where "w0 =
    the (run [CallSetCurrentCurrency ''eur'', CallSetNativeCurrency ''BTC'', MutexSched]
      exampleController)"
  define w1 where "w1 = the (fire (Acquired 0) w0)"
  define w2 where "w2 = the (run [CallSetCurrentCurrency ''gbp''] w1)"
  have reach: "run [CallSetCurrentCurrency ''eur'', CallSetNativeCurrency ''BTC'', MutexSched]
      (new_CurrencyRateController exampleSource None None None) = Some w0"
    by (simp add: w0_def model_defs example_defs)
  have acq: "fire (Acquired 0) w0 = Some w1"
    by (simp add: w1_def w0_def model_defs example_defs)
  have mid: "run [CallSetCurrentCurrency ''gbp''] w1 = Some w2"
    by (simp add: w2_def)
  have other: "\<forall>env. FetchSettles 0 env \<notin> set [CallSetCurrentCurrency ''gbp'']"
    by simp
  have st0: "pendingCurrentCurrency (state w0) = Some ''eur''"
    "pendingNativeCurrency (state w0) = Some ''BTC''"
    by (simp_all add: w0_def model_defs example_defs)
  have ok: "fetchExchangeRate w0 (Inr exampleRate)
      (js_or (pendingCurrentCurrency (state w0)) (currentCurrency (state w0)))
      (js_or (pendingNativeCurrency (state w0)) (nativeCurrency (state w0)))
      (includeUsdRate w0) = Inr exampleRate"
    by (simp add: w0_def model_defs example_defs)
  from commit_on_success [OF reach acq mid other ok] st0 reach acq mid
  show ?thesis
    by (auto simp: exampleController_def exampleRate_def js_or_def)
qed

subsection \<open>A refresh whose fetch fails (claim C3)\<close>

text \<open>
  C3, as amended. Take any run of \<open>updateExchangeRate\<close> as above, whose fetch rejects with
  \<open>e\<close>. No commit occurs: the settling changes nothing in the state and publishes
  nothing; \<open>conversionDate\<close>, \<open>conversionRate\<close>, \<open>currentCurrency\<close> and
  \<open>nativeCurrency\<close> are those of \<open>w0\<close>, before the fetch; the pending fields are as
  captured before the fetch unless \<open>setCurrentCurrency\<close> or \<open>setNativeCurrency\<close> was
  called during the fetch (without such a call the whole state is the one of \<open>w0\<close>); and
  the lock is released: the slot is free again, or the longest-waiting call has been
  granted it.
\<close>

theorem no_commit_on_failure:
  assumes reach: "run es0 (new_CurrencyRateController d s i f) = Some w0"
    and acq: "fire (Acquired p) w0 = Some w1"
    and mid: "run es w1 = Some w2"
    and other: "\<forall>env. FetchSettles p env \<notin> set es"
    and failed: "fetchExchangeRate w0 env
               (js_or (pendingCurrentCurrency (state w0)) (currentCurrency (state w0)))
               (js_or (pendingNativeCurrency (state w0)) (nativeCurrency (state w0)))
               (includeUsdRate w0) = Inl e"
  shows "\<exists>w3. fire (FetchSettles p env) w2 = Some w3 \<and>
           state w3 = state w2 \<and> published w3 = published w2 \<and>
           conversionDate (state w3) = conversionDate (state w0) \<and>
           conversionRate (state w3) = conversionRate (state w0) \<and>
           currentCurrency (state w3) = currentCurrency (state w0) \<and>
           nativeCurrency (state w3) = nativeCurrency (state w0) \<and>
           ((\<forall>c. CallSetCurrentCurrency c \<notin> set es \<and> CallSetNativeCurrency c \<notin> set es) \<longrightarrow>
              state w3 = state w0) \<and>
           pc (procs w3 ! p) = Settled (Inl e) \<and>
           (case tasks (mutex w2) of
              [] \<Rightarrow> mutex w3 = \<lparr>count = 1, tasks = []\<rparr>
            | nxt # rest \<Rightarrow>
                mutex w3 = \<lparr>count = 0, tasks = rest\<rparr> \<and> pc (procs w3 ! nxt) = Granted)"
proof -
  note fl = refresh_in_flight [OF reach acq mid other]
  from fl have p: "p < length (procs w2)" and ser2: "serial (procs w2) (mutex w2)" by simp_all
  from fl failed have f2: "fetchExchangeRate w2 env
               (js_or (pendingCurrentCurrency (state w0)) (currentCurrency (state w0)))
               (js_or (pendingNativeCurrency (state w0)) (nativeCurrency (state w0)))
               (includeUsdRate w0) = Inl e" by simp
  from fl have pc: "pc (procs w2 ! p) =
           Fetching \<lparr> currentCurrency' = currentCurrency (state w0),
                      nativeCurrency' = nativeCurrency (state w0),
                      pendingCurrentCurrency' = pendingCurrentCurrency (state w0),
                      pendingNativeCurrency' = pendingNativeCurrency (state w0) \<rparr>
                    (js_or (pendingCurrentCurrency (state w0)) (currentCurrency (state w0)),
                     js_or (pendingNativeCurrency (state w0)) (nativeCurrency (state w0)),
                     includeUsdRate w0)" by simp
  from pc have "phase_of (pc (procs w2 ! p)) = InProgress" by simp
  from serial_in_progress [OF ser2 p this]
  have k: "Suc p = length (procs w2) - length (tasks (mutex w2))" and cnt: "count (mutex w2) = 0"
    by simp_all
  from settle_failure [OF p pc f2] obtain w3 where
    w3: "fire (FetchSettles p env) w2 = Some w3" "state w3 = state w2"
      "published w3 = published w2" "pc (procs w3 ! p) = Settled (Inl e)"
    and lock: "case tasks (mutex w2) of
              [] \<Rightarrow> mutex w3 = \<lparr>count = count (mutex w2) + 1, tasks = []\<rparr>
            | nxt # rest \<Rightarrow>
                mutex w3 = \<lparr>count = count (mutex w2), tasks = rest\<rparr> \<and>
                (nxt < length (procs w2) \<and> nxt \<noteq> p \<longrightarrow> pc (procs w3 ! nxt) = Granted)"
    by blast
  have handed: "nxt < length (procs w2) \<and> nxt \<noteq> p" if "tasks (mutex w2) = nxt # rest" for nxt rest
  proof -
    from ser2 have "tasks (mutex w2) =
        [length (procs w2) - length (tasks (mutex w2))..<length (procs w2)]"
      by (simp add: serial_def)
    with that k have "[Suc p..<length (procs w2)] = nxt # rest" by simp
    then show ?thesis by (auto simp: upt_eq_Cons_conv)
  qed
  from fl w3 cnt lock handed show ?thesis
    by (auto simp: confirmed_def split: list.splits)
qed

text \<open>A requested switch to \<open>eur\<close> whose fetch fails: the request stays pending.\<close>

theorem no_commit_on_failure_witness:
  "\<exists>w0 w1 w3.
     run [CallSetCurrentCurrency ''eur'', MutexSched] exampleController = Some w0 \<and>
     fire (Acquired 0) w0 = Some w1 \<and>
     fire (FetchSettles 0 (Inl (FetchFailure ''down''))) w1 = Some w3 \<and>
     state w3 =
       \<lparr> conversionDate = 0, conversionRate = 0, currentCurrency = ''usd'',
         nativeCurrency = ''ETH'', pendingCurrentCurrency = Some ''eur'',
         pendingNativeCurrency = None, usdConversionRate = None \<rparr> \<and>
     published w3 = published w0 \<and>
     mutex w3 = \<lparr>count = 0, tasks = []\<rparr> \<and> pc (procs w3 ! 1) = Granted"
proof -
  define w0 where "w0 = the (run [CallSetCurrentCurrency ''eur'', MutexSched] exampleController)"
  define w1 where "w1 = the (fire (Acquired 0) w0)"
  have reach: "run [CallSetCurrentCurrency ''eur'', MutexSched]
      (new_CurrencyRateController exampleSource None None None) = Some w0"
    by (simp add: w0_def model_defs example_defs)
  have acq: "fire (Acquired 0) w0 = Some w1"
    by (simp add: w1_def w0_def model_defs example_defs)
  have mid: "run [] w1 = Some w1" by simp
  have other: "\<forall>env. FetchSettles 0 env \<notin> set []" by simp
  have failed: "fetchExchangeRate w0 (Inl (FetchFailure ''down''))
      (js_or (pendingCurrentCurrency (state w0)) (currentCurrency (state w0)))
      (js_or (pendingNativeCurrency (state w0)) (nativeCurrency (state w0)))
      (includeUsdRate w0) = Inl (FetchFailure ''down'')"
    by (simp add: w0_def model_defs example_defs)
  have st0: "state w0 =
       \<lparr> conversionDate = 0, conversionRate = 0, currentCurrency = ''usd'',
         nativeCurrency = ''ETH'', pendingCurrentCurrency = Some ''eur'',
         pendingNativeCurrency = None, usdConversionRate = None \<rparr>"
    and pub: "published w1 = published w0" and q: "tasks (mutex w1) = [1]"
    by (simp_all add: w1_def w0_def model_defs example_defs)
  from no_commit_on_failure [OF reach acq mid other failed] st0 pub q reach acq
  show ?thesis
    by (auto simp: exampleController_def)
qed

text \<open>
  The claim as stated fails when a setter is called during the fetch, since the setters
  write outside the lock: the run captures the pending quote \<open>eur\<close>,
  \<open>setCurrentCurrency('gbp')\<close> is called while its fetch is pending, the fetch rejects, and
  the pending quote is \<open>gbp\<close>, not the captured \<open>eur\<close>.
\<close>

theorem no_commit_on_failure_counterexample:
  "map_option outcomes
     (run [CallSetCurrentCurrency ''eur'', MutexSched, Acquired 0] exampleController) =
     Some [Fetching \<lparr> currentCurrency' = ''usd'', nativeCurrency' = ''ETH'',
                      pendingCurrentCurrency' = Some ''eur'',
                      pendingNativeCurrency' = None \<rparr>
                    (''eur'', ''ETH'', False),
           Queued] \<and>
   map_option state
     (run [CallSetCurrentCurrency ''eur'', MutexSched, Acquired 0] exampleController) =
     Some \<lparr> conversionDate = 0, conversionRate = 0, currentCurrency = ''usd'',
            nativeCurrency = ''ETH'', pendingCurrentCurrency = Some ''eur'',
            pendingNativeCurrency = None, usdConversionRate = None \<rparr> \<and>
   map_option state
     (run [CallSetCurrentCurrency ''eur'', MutexSched, Acquired 0,
           CallSetCurrentCurrency ''gbp'', FetchSettles 0 (Inl (FetchFailure ''down''))]
        exampleController) =
     Some \<lparr> conversionDate = 0, conversionRate = 0, currentCurrency = ''usd'',
            nativeCurrency = ''ETH'', pendingCurrentCurrency = Some ''gbp'',
            pendingNativeCurrency = None, usdConversionRate = None \<rparr> \<and>
   map_option outcomes
     (run [CallSetCurrentCurrency ''eur'', MutexSched, Acquired 0,
           CallSetCurrentCurrency ''gbp'', FetchSettles 0 (Inl (FetchFailure ''down''))]
        exampleController) =
     Some [Settled (Inl (FetchFailure ''down'')), Granted, Queued] \<and>
   Some ''gbp'' \<noteq> Some ''eur''"
  by (simp add: model_defs example_defs)

subsection \<open>The pair passed to the rate source (claim C4)\<close>

text \<open>
  C4, as amended. When a call of \<open>updateExchangeRate\<close> resumes with the lock in state
  \<open>w\<close>, it calls the rate source once, with the pair resolved from \<open>this.state\<close> as read
  then: the quote is \<open>pendingCurrentCurrency\<close> if that is neither \<open>null\<close> nor the empty
  string, else \<open>currentCurrency\<close>; the base is \<open>pendingNativeCurrency\<close> if that is
  neither \<open>null\<close> nor the empty string, else \<open>nativeCurrency\<close>; the third argument is
  \<open>includeUsdRate\<close>. The state itself is not changed by the call.
\<close>

theorem fetch_pair_resolution:
  assumes "fire (Acquired p) w = Some w'"
  shows "fetchCalls w' = fetchCalls w @
           [((case pendingCurrentCurrency (state w) of
                None \<Rightarrow> currentCurrency (state w)
              | Some c \<Rightarrow> if c = '''' then currentCurrency (state w) else c),
             (case pendingNativeCurrency (state w) of
                None \<Rightarrow> nativeCurrency (state w)
              | Some c \<Rightarrow> if c = '''' then nativeCurrency (state w) else c),
             includeUsdRate w)] \<and>
         pc (procs w' ! p) =
           Fetching \<lparr> currentCurrency' = currentCurrency (state w),
                      nativeCurrency' = nativeCurrency (state w),
                      pendingCurrentCurrency' = pendingCurrentCurrency (state w),
                      pendingNativeCurrency' = pendingNativeCurrency (state w) \<rparr>
                    (last (fetchCalls w')) \<and>
         state w' = state w \<and> published w' = published w"
  using assms
  by (auto simp: updateExchangeRate_acquired_def js_or_def Let_def
           split: if_splits option.splits)

text \<open>A pending quote \<open>eur\<close> and an empty pending base: the fetch is for \<open>(eur, ETH)\<close>.\<close>

theorem fetch_pair_resolution_witness:
  "\<exists>w w'.
     run [CallSetCurrentCurrency ''eur'', CallSetNativeCurrency '''', MutexSched]
       exampleController = Some w \<and>
     fire (Acquired 0) w = Some w' \<and>
     pendingCurrentCurrency (state w) = Some ''eur'' \<and>
     pendingNativeCurrency (state w) = Some '''' \<and>
     fetchCalls w' = [(''eur'', ''ETH'', False)]"
proof -
  define w where "w =
    the (run [CallSetCurrentCurrency ''eur'', CallSetNativeCurrency '''', MutexSched]
      exampleController)"
  define w' where "w' = the (fire (Acquired 0) w)"
  have reach: "run [CallSetCurrentCurrency ''eur'', CallSetNativeCurrency '''', MutexSched]
      exampleController = Some w"
    by (simp add: w_def model_defs example_defs)
  have acq: "fire (Acquired 0) w = Some w'"
    by (simp add: w'_def w_def model_defs example_defs)
  have st: "pendingCurrentCurrency (state w) = Some ''eur''"
    "pendingNativeCurrency (state w) = Some ''''"
    "currentCurrency (state w) = ''usd''" "nativeCurrency (state w) = ''ETH''"
    "includeUsdRate w = False" "fetchCalls w = []"
    by (simp_all add: w_def model_defs example_defs)
  from fetch_pair_resolution [OF acq] st reach acq show ?thesis
    by auto
qed

text \<open>
  The claim as stated fails for the empty string: after \<open>setCurrentCurrency('')\<close> the
  pending quote is present in the state, yet the fetch is for the confirmed quote \<open>usd\<close>.
\<close>

theorem fetch_pair_resolution_counterexample:
  "map_option state (run [CallSetCurrentCurrency '''', MutexSched] exampleController) =
     Some \<lparr> conversionDate = 0, conversionRate = 0, currentCurrency = ''usd'',
            nativeCurrency = ''ETH'', pendingCurrentCurrency = Some '''',
            pendingNativeCurrency = None, usdConversionRate = None \<rparr> \<and>
   map_option fetchCalls
     (run [CallSetCurrentCurrency '''', MutexSched, Acquired 0] exampleController) =
     Some [(''usd'', ''ETH'', False)] \<and>
   ''usd'' \<noteq> ''''"
  by (simp add: model_defs example_defs)

subsection \<open>The currency-change requests (claim C5)\<close>

text \<open>
  C5. \<open>setCurrentCurrency(code)\<close> writes \<open>pendingCurrentCurrency = code\<close> and publishes
  the state with that write, before it returns to its caller; no fetch has been invoked
  by then, the refresh it triggers being queued at the mutex. \<open>setNativeCurrency(symbol)\<close>
  does the same on \<open>pendingNativeCurrency\<close>. And whatever the triggered refresh settles
  with, a rejection included, the setter completes normally and leaves the state as it is.
\<close>

theorem setters_write_pending_first:
  "fire (CallSetCurrentCurrency code) w = Some (setCurrentCurrency code w) \<and>
   state (setCurrentCurrency code w) = (state w)\<lparr>pendingCurrentCurrency := Some code\<rparr> \<and>
   published (setCurrentCurrency code w) = published w @ [state (setCurrentCurrency code w)] \<and>
   fetchCalls (setCurrentCurrency code w) = fetchCalls w \<and>
   procs (setCurrentCurrency code w) = procs w @ [\<lparr>caller = BySetter, pc = Queued\<rparr>] \<and>
   fire (CallSetNativeCurrency symbol) w = Some (setNativeCurrency symbol w) \<and>
   state (setNativeCurrency symbol w) = (state w)\<lparr>pendingNativeCurrency := Some symbol\<rparr> \<and>
   published (setNativeCurrency symbol w) = published w @ [state (setNativeCurrency symbol w)] \<and>
   fetchCalls (setNativeCurrency symbol w) = fetchCalls w \<and>
   procs (setNativeCurrency symbol w) = procs w @ [\<lparr>caller = BySetter, pc = Queued\<rparr>] \<and>
   (p < length (procs w) \<and> caller (procs w ! p) = BySetter \<and> pc (procs w ! p) = Settled r \<longrightarrow>
      (\<exists>w'. fire (Returns p) w = Some w' \<and> pc (procs w' ! p) = Done (Inr None) \<and>
            state w' = state w \<and> published w' = published w))"
  by (auto simp: setCurrentCurrency_def setNativeCurrency_def returned_def safelyExecute_def
           split: sum.splits)

text \<open>A switch to \<open>eur\<close> whose refresh fails: the caller of the setter sees no failure.\<close>

theorem setters_write_pending_first_witness:
  "\<exists>w w'.
     run [MutexSched, Acquired 0, FetchSettles 0 (Inr exampleRate), Returns 0,
          CallSetCurrentCurrency ''eur'', MutexSched, Acquired 1,
          FetchSettles 1 (Inl (FetchFailure ''down''))] exampleController = Some w \<and>
     caller (procs w ! 1) = BySetter \<and>
     pc (procs w ! 1) = Settled (Inl (FetchFailure ''down'')) \<and>
     fire (Returns 1) w = Some w' \<and>
     pc (procs w' ! 1) = Done (Inr None) \<and>
     pendingCurrentCurrency (state w') = Some ''eur''"
proof -
  define w where "w =
    the (run [MutexSched, Acquired 0, FetchSettles 0 (Inr exampleRate), Returns 0,
          CallSetCurrentCurrency ''eur'', MutexSched, Acquired 1,
          FetchSettles 1 (Inl (FetchFailure ''down''))] exampleController)"
  have reach: "run [MutexSched, Acquired 0, FetchSettles 0 (Inr exampleRate), Returns 0,
          CallSetCurrentCurrency ''eur'', MutexSched, Acquired 1,
          FetchSettles 1 (Inl (FetchFailure ''down''))] exampleController = Some w"
    by (simp add: w_def model_defs example_defs)
  have shape: "1 < length (procs w)" "caller (procs w ! 1) = BySetter"
    "pc (procs w ! 1) = Settled (Inl (FetchFailure ''down''))"
    "pendingCurrentCurrency (state w) = Some ''eur''"
    by (simp_all add: w_def model_defs example_defs)
  from setters_write_pending_first [of _ w _ 1 "Inl (FetchFailure ''down'')"] shape
  obtain w' where "fire (Returns 1) w = Some w'" "pc (procs w' ! 1) = Done (Inr None)"
    "state w' = state w"
    by blast
  with reach shape show ?thesis by auto
qed

subsection \<open>Polling and teardown (claim C6)\<close>

text \<open>
  When the refresh of a tick has settled, with a result or with an error, the rest of
  \<open>poll\<close> sets the next timer, which can fire.
\<close>

lemma poll_reschedules:
  assumes "p < length (procs w)" and "caller (procs w ! p) = ByPoll"
    and "pc (procs w ! p) = Settled r"
  shows "\<exists>w'. fire (Returns p) w = Some w' \<and> handle w' = Some (timerSeq w) \<and>
           timers w' = timers w @ [timerSeq w] \<and>
           fire (TimerFires (timerSeq w)) w' \<noteq> None"
  using assms
  by (auto simp: returned_def safelyExecute_def poll_reschedule_def split: sum.splits)

lemma pc_list_update:
  "p < length ps \<Longrightarrow>
   pc (ps[q := (ps ! q)\<lparr>pc := c\<rparr>] ! p) = (if p = q then c else pc (ps ! p))"
  by (simp add: nth_list_update)

lemma sched_not_done:
  assumes "p < length (procs w)" and "\<forall>r. pc (procs w ! p) \<noteq> Done r"
  shows "\<forall>r. pc (procs (sched w) ! p) \<noteq> Done r"
  using assms
  by (cases "tasks (mutex w)") (auto simp: sched_def pc_list_update)

lemma releaseLock_not_done:
  assumes "p < length (procs w)" and "\<forall>r. pc (procs w ! p) \<noteq> Done r"
  shows "\<forall>r. pc (procs (releaseLock w) ! p) \<noteq> Done r"
  unfolding releaseLock_def using assms by (intro sched_not_done) simp_all

text \<open>
  Until \<open>destroy\<close> is called, the loop is alive: a timer is pending, or a call made by
  \<open>poll\<close> is under way, after which \<open>poll\<close> sets the next timer.
\<close>

lemma polling_step:
  assumes alive: "timers w \<noteq> [] \<or>
      (\<exists>p<length (procs w). caller (procs w ! p) = ByPoll \<and> (\<forall>r. pc (procs w ! p) \<noteq> Done r))"
    and fire: "fire ev w = Some w'"
    and ev: "ev \<noteq> CallDestroy"
  shows "timers w' \<noteq> [] \<or>
      (\<exists>p<length (procs w'). caller (procs w' ! p) = ByPoll \<and> (\<forall>r. pc (procs w' ! p) \<noteq> Done r))"
proof (cases ev)
  case (CallSetCurrentCurrency code)
  with alive fire show ?thesis
    by (auto simp: setCurrentCurrency_def nth_append intro: less_SucI)
next
  case (CallSetNativeCurrency symbol)
  with alive fire show ?thesis
    by (auto simp: setNativeCurrency_def nth_append intro: less_SucI)
next
  case CallUpdateExchangeRate
  with alive fire show ?thesis
    by (auto simp: nth_append intro: less_SucI)
next
  case CallPoll
  with fire have "length (procs w) < length (procs w') \<and>
      caller (procs w' ! length (procs w)) = ByPoll \<and> pc (procs w' ! length (procs w)) = Queued"
    by (auto simp: poll_def clearTimeout_def split: option.splits)
  then show ?thesis by (metis pc.distinct(7))
next
  case CallDestroy
  with ev show ?thesis by simp
next
  case (TimerFires t)
  with fire have "length (procs w) < length (procs w') \<and>
      caller (procs w' ! length (procs w)) = ByPoll \<and> pc (procs w' ! length (procs w)) = Queued"
    by (auto simp: poll_def clearTimeout_def split: option.splits if_splits)
  then show ?thesis by (metis pc.distinct(7))
next
  case MutexSched
  with alive fire sched_not_done [of _ w] show ?thesis by auto
next
  case (Acquired q)
  with alive fire show ?thesis
    by (auto simp: updateExchangeRate_acquired_def Let_def nth_list_update split: if_splits)
next
  case (FetchSettles q env)
  with fire obtain snap outcome where q: "q < length (procs w)"
    and w': "w' = updateExchangeRate_fetched q snap outcome w"
    by (auto split: if_splits pc.splits)
  from alive show ?thesis
  proof
    assume "timers w \<noteq> []"
    with w' show ?thesis
      by (auto simp: updateExchangeRate_fetched_def split: sum.splits)
  next
    assume "\<exists>p<length (procs w). caller (procs w ! p) = ByPoll \<and>
      (\<forall>r. pc (procs w ! p) \<noteq> Done r)"
    then obtain p where p: "p < length (procs w)" "caller (procs w ! p) = ByPoll"
      "\<forall>r. pc (procs w ! p) \<noteq> Done r" by blast
    have "p < length (procs w') \<and> caller (procs w' ! p) = ByPoll \<and>
      (\<forall>r. pc (procs w' ! p) \<noteq> Done r)"
    proof (cases outcome)
      case (Inl e)
      with w' p releaseLock_not_done [OF p(1,3)] show ?thesis
        by (auto simp: updateExchangeRate_fetched_def pc_list_update)
    next
      case (Inr x)
      with w' p releaseLock_not_done [of p "update g w" for g] show ?thesis
        by (auto simp: updateExchangeRate_fetched_def pc_list_update)
    qed
    then show ?thesis by blast
  qed
next
  case (Returns q)
  with fire obtain r where q: "q < length (procs w)" "pc (procs w ! q) = Settled r"
    and w': "w' = returned q r w"
    by (auto split: if_splits pc.splits)
  from alive show ?thesis
  proof
    assume "timers w \<noteq> []"
    with w' show ?thesis
      by (auto simp: returned_def safelyExecute_def split: caller.splits sum.splits)
  next
    assume "\<exists>p<length (procs w). caller (procs w ! p) = ByPoll \<and>
      (\<forall>r. pc (procs w ! p) \<noteq> Done r)"
    then obtain p where p: "p < length (procs w)" "caller (procs w ! p) = ByPoll"
      "\<forall>r. pc (procs w ! p) \<noteq> Done r" by blast
    show ?thesis
    proof (cases "p = q")
      case True
      with p w' have "timers w' \<noteq> []"
        by (auto simp: returned_def safelyExecute_def split: sum.splits)
      then show ?thesis by simp
    next
      case False
      with p w' have "p < length (procs w') \<and> caller (procs w' ! p) = ByPoll \<and>
          (\<forall>r. pc (procs w' ! p) \<noteq> Done r)"
        by (auto simp: returned_def safelyExecute_def split: caller.splits sum.splits)
      then show ?thesis by blast
    qed
  qed
qed

lemma polling_run:
  assumes "timers w \<noteq> [] \<or>
      (\<exists>p<length (procs w). caller (procs w ! p) = ByPoll \<and> (\<forall>r. pc (procs w ! p) \<noteq> Done r))"
    and "run es w = Some w'"
    and "CallDestroy \<notin> set es"
  shows "timers w' \<noteq> [] \<or>
      (\<exists>p<length (procs w'). caller (procs w' ! p) = ByPoll \<and> (\<forall>r. pc (procs w' ! p) \<noteq> Done r))"
  using assms
proof (induction es arbitrary: w)
  case Nil
  then show ?case by simp
next
  case (Cons e es)
  from Cons.prems(2) obtain v where e: "fire e w = Some v" and es: "run es v = Some w'"
    by (auto split: option.splits)
  from Cons.prems(3) have "e \<noteq> CallDestroy" "CallDestroy \<notin> set es" by auto
  from Cons.IH [OF polling_step [OF Cons.prems(1) e this(1)] es this(2)] show ?case .
qed

lemma polling_never_stops:
  assumes "run es (new_CurrencyRateController d s i f) = Some w"
    and "CallDestroy \<notin> set es"
  shows "timers w \<noteq> [] \<or>
      (\<exists>p<length (procs w). caller (procs w ! p) = ByPoll \<and> (\<forall>r. pc (procs w ! p) \<noteq> Done r))"
proof -
  have "\<exists>p<length (procs (new_CurrencyRateController d s i f)).
      caller (procs (new_CurrencyRateController d s i f) ! p) = ByPoll \<and>
      (\<forall>r. pc (procs (new_CurrencyRateController d s i f) ! p) \<noteq> Done r)"
    by (simp add: new_CurrencyRateController_def poll_def)
  then show ?thesis
    using polling_run [OF _ assms] by blast
qed

text \<open>
  C6, at the input where the code departs from it. \<open>destroy()\<close> is called right after the
  constructor, while the first refresh of \<open>poll\<close> is pending: \<open>this.handle\<close> is not set
  yet, so no timer is cleared. When that refresh has settled, \<open>poll\<close> sets a timer all the
  same; the timer fires, and the rate source is called a second time, after teardown.
\<close>

theorem polling_survives_destroy:
  "map_option detached (run [CallDestroy] exampleController) = Some True \<and>
   map_option timers (run [CallDestroy] exampleController) = Some [] \<and>
   map_option fetchCalls (run [CallDestroy] exampleController) = Some [] \<and>
   map_option timers
     (run [CallDestroy, MutexSched, Acquired 0, FetchSettles 0 (Inr exampleRate), Returns 0]
        exampleController) = Some [0] \<and>
   map_option fetchCalls
     (run [CallDestroy, MutexSched, Acquired 0, FetchSettles 0 (Inr exampleRate), Returns 0,
           TimerFires 0, MutexSched, Acquired 1] exampleController) =
     Some [(''usd'', ''ETH'', False), (''usd'', ''ETH'', False)]"
  by (simp add: model_defs example_defs)

subsection \<open>What the refresh returns (claim C7)\<close>

text \<open>
  C7, as amended. When the fetch of a call of \<open>updateExchangeRate\<close> settles, the promise
  of the call resolves with no value (\<open>undefined\<close>) if the fetch resolved, after the
  commit, published once; and it rejects with the error of the fetch if it rejected, with
  no commit: the state and the published events are unchanged. On both paths the lock
  has been released: the slot is free again, or the longest-waiting call has been granted
  it. A direct caller observes exactly that result; \<open>poll\<close> and the setters, which call
  it through \<open>safelyExecute\<close>, complete normally in both cases.
\<close>

theorem updateExchangeRate_result:
  assumes "p < length (procs w)"
    and "pc (procs w ! p) = Fetching snap (quote, base, usd)"
  shows "\<exists>w' w''. fire (FetchSettles p env) w = Some w' \<and>
           pc (procs w' ! p) =
             (case fetchExchangeRate w env quote base usd of
                Inr r \<Rightarrow> Settled (Inr None)
              | Inl e \<Rightarrow> Settled (Inl e)) \<and>
           (case fetchExchangeRate w env quote base usd of
              Inr r \<Rightarrow>
                state w' =
                  \<lparr> conversionDate = fetchedConversionDate r,
                    conversionRate = fetchedConversionRate r,
                    currentCurrency =
                      js_or (pendingCurrentCurrency' snap) (currentCurrency' snap),
                    nativeCurrency =
                      js_or (pendingNativeCurrency' snap) (nativeCurrency' snap),
                    pendingCurrentCurrency = None,
                    pendingNativeCurrency = None,
                    usdConversionRate = fetchedUsdConversionRate r \<rparr> \<and>
                published w' = published w @ [state w']
            | Inl e \<Rightarrow> state w' = state w \<and> published w' = published w) \<and>
           (case tasks (mutex w) of
              [] \<Rightarrow> mutex w' = \<lparr>count = count (mutex w) + 1, tasks = []\<rparr>
            | nxt # rest \<Rightarrow>
                mutex w' = \<lparr>count = count (mutex w), tasks = rest\<rparr> \<and>
                (nxt < length (procs w) \<and> nxt \<noteq> p \<longrightarrow> pc (procs w' ! nxt) = Granted)) \<and>
           fire (Returns p) w' = Some w'' \<and>
           state w'' = state w' \<and> published w'' = published w' \<and> mutex w'' = mutex w' \<and>
           pc (procs w'' ! p) =
             (case caller (procs w ! p) of
                Direct \<Rightarrow>
                  (case fetchExchangeRate w env quote base usd of
                     Inr r \<Rightarrow> Done (Inr None)
                   | Inl e \<Rightarrow> Done (Inl e))
              | BySetter \<Rightarrow> Done (Inr None)
              | ByPoll \<Rightarrow> Done (Inr None))"
proof (cases "fetchExchangeRate w env quote base usd")
  case (Inl e)
  from settle_failure [OF assms Inl] obtain w' where
    w': "fire (FetchSettles p env) w = Some w'" "state w' = state w"
      "published w' = published w" "pc (procs w' ! p) = Settled (Inl e)"
    and lock: "case tasks (mutex w) of
              [] \<Rightarrow> mutex w' = \<lparr>count = count (mutex w) + 1, tasks = []\<rparr>
            | nxt # rest \<Rightarrow>
                mutex w' = \<lparr>count = count (mutex w), tasks = rest\<rparr> \<and>
                (nxt < length (procs w) \<and> nxt \<noteq> p \<longrightarrow> pc (procs w' ! nxt) = Granted)"
    by blast
  from w'(1) assms Inl have len: "p < length (procs w')"
    and cl: "caller (procs w' ! p) = caller (procs w ! p)"
    by (auto simp: updateExchangeRate_fetched_def)
  from len w'(4) cl have ret: "\<exists>w''. fire (Returns p) w' = Some w'' \<and>
      state w'' = state w' \<and> published w'' = published w' \<and> mutex w'' = mutex w' \<and>
      pc (procs w'' ! p) =
        (case caller (procs w ! p) of
           Direct \<Rightarrow> Done (Inl e) | BySetter \<Rightarrow> Done (Inr None) | ByPoll \<Rightarrow> Done (Inr None))"
    by (auto simp: returned_def safelyExecute_def split: caller.splits)
  from ret obtain w'' where r: "fire (Returns p) w' = Some w''"
      "state w'' = state w'" "published w'' = published w'" "mutex w'' = mutex w'"
      "pc (procs w'' ! p) =
        (case caller (procs w ! p) of
           Direct \<Rightarrow> Done (Inl e) | BySetter \<Rightarrow> Done (Inr None) | ByPoll \<Rightarrow> Done (Inr None))"
    by blast
  show ?thesis
    apply (rule exI [of _ w'])
    apply (rule exI [of _ w''])
    using w' lock r Inl
    apply (simp del: fire.simps split: caller.splits)
    done
next
  case (Inr r)
  from settle_success [OF assms Inr] obtain w' where
    w': "fire (FetchSettles p env) w = Some w'"
      "state w' =
             \<lparr> conversionDate = fetchedConversionDate r,
               conversionRate = fetchedConversionRate r,
               currentCurrency = js_or (pendingCurrentCurrency' snap) (currentCurrency' snap),
               nativeCurrency = js_or (pendingNativeCurrency' snap) (nativeCurrency' snap),
               pendingCurrentCurrency = None,
               pendingNativeCurrency = None,
               usdConversionRate = fetchedUsdConversionRate r \<rparr>"
      "published w' = published w @ [state w']" "pc (procs w' ! p) = Settled (Inr None)"
    by blast
  from w'(1) assms Inr have len: "p < length (procs w')"
    and cl: "caller (procs w' ! p) = caller (procs w ! p)"
    and lock: "case tasks (mutex w) of
              [] \<Rightarrow> mutex w' = \<lparr>count = count (mutex w) + 1, tasks = []\<rparr>
            | nxt # rest \<Rightarrow>
                mutex w' = \<lparr>count = count (mutex w), tasks = rest\<rparr> \<and>
                (nxt < length (procs w) \<and> nxt \<noteq> p \<longrightarrow> pc (procs w' ! nxt) = Granted)"
    by (auto simp: updateExchangeRate_fetched_def releaseLock_def sched_def
             split: list.splits)
  from len w'(4) cl have ret: "\<exists>w''. fire (Returns p) w' = Some w'' \<and>
      state w'' = state w' \<and> published w'' = published w' \<and> mutex w'' = mutex w' \<and>
      pc (procs w'' ! p) =
        (case caller (procs w ! p) of
           Direct \<Rightarrow> Done (Inr None) | BySetter \<Rightarrow> Done (Inr None) | ByPoll \<Rightarrow> Done (Inr None))"
    by (auto simp: returned_def safelyExecute_def split: caller.splits)
  from ret obtain w'' where r: "fire (Returns p) w' = Some w''"
      "state w'' = state w'" "published w'' = published w'" "mutex w'' = mutex w'"
      "pc (procs w'' ! p) =
        (case caller (procs w ! p) of
           Direct \<Rightarrow> Done (Inr None) | BySetter \<Rightarrow> Done (Inr None) | ByPoll \<Rightarrow> Done (Inr None))"
    by blast
  show ?thesis
    apply (rule exI [of _ w'])
    apply (rule exI [of _ w''])
    using w' lock r Inr
    apply (simp del: fire.simps split: caller.splits)
    done
qed

text \<open>
  A direct call whose fetch rejects: the caller gets the rejection, the state is as
  before, nothing more is published, and the slot of the mutex is free again.
\<close>

theorem updateExchangeRate_result_witness:
  "\<exists>w w' w''.
     run [MutexSched, Acquired 0, FetchSettles 0 (Inr exampleRate), Returns 0,
          CallUpdateExchangeRate, MutexSched, Acquired 1] exampleController = Some w \<and>
     mutex w = \<lparr>count = 0, tasks = []\<rparr> \<and>
     fire (FetchSettles 1 (Inl (FetchFailure ''down''))) w = Some w' \<and>
     pc (procs w' ! 1) = Settled (Inl (FetchFailure ''down'')) \<and>
     state w' = state w \<and> published w' = published w \<and>
     mutex w' = \<lparr>count = 1, tasks = []\<rparr> \<and>
     fire (Returns 1) w' = Some w'' \<and>
     pc (procs w'' ! 1) = Done (Inl (FetchFailure ''down'')) \<and>
     state w'' = state w \<and> mutex w'' = \<lparr>count = 1, tasks = []\<rparr>"
proof -
  define w where "w =
    the (run [MutexSched, Acquired 0, FetchSettles 0 (Inr exampleRate), Returns 0,
          CallUpdateExchangeRate, MutexSched, Acquired 1] exampleController)"
  have reach: "run [MutexSched, Acquired 0, FetchSettles 0 (Inr exampleRate), Returns 0,
          CallUpdateExchangeRate, MutexSched, Acquired 1] exampleController = Some w"
    by (simp add: w_def model_defs example_defs)
  have shape: "1 < length (procs w)" "caller (procs w ! 1) = Direct"
    "pc (procs w ! 1) =
       Fetching \<lparr> currentCurrency' = ''usd'', nativeCurrency' = ''ETH'',
                  pendingCurrentCurrency' = None, pendingNativeCurrency' = None \<rparr>
                (''usd'', ''ETH'', False)"
    "fetchExchangeRate w = exampleSource"
    "mutex w = \<lparr>count = 0, tasks = []\<rparr>"
    by (simp_all add: w_def model_defs example_defs)
  from updateExchangeRate_result [OF shape(1,3), of "Inl (FetchFailure ''down'')"]
  obtain w' w'' where
    "fire (FetchSettles 1 (Inl (FetchFailure ''down''))) w = Some w'"
    "pc (procs w' ! 1) = Settled (Inl (FetchFailure ''down''))"
    "state w' = state w" "published w' = published w"
    "mutex w' = \<lparr>count = 1, tasks = []\<rparr>"
    "fire (Returns 1) w' = Some w''"
    "state w'' = state w'" "mutex w'' = mutex w'"
    "pc (procs w'' ! 1) = Done (Inl (FetchFailure ''down''))"
    using shape by (auto simp: exampleSource_def)
  with reach shape show ?thesis by auto
qed

text \<open>
  The claim as stated fails on both counts: after a successful refresh a direct caller
  gets \<open>undefined\<close>, not the new state; after a failed one it gets the rejection.
\<close>

theorem updateExchangeRate_result_counterexample:
  "map_option outcomes
     (run [MutexSched, Acquired 0, FetchSettles 0 (Inr exampleRate), Returns 0,
           CallUpdateExchangeRate, MutexSched, Acquired 1, FetchSettles 1 (Inr exampleRate),
           Returns 1] exampleController) =
     Some [Done (Inr None), Done (Inr None)] \<and>
   map_option state
     (run [MutexSched, Acquired 0, FetchSettles 0 (Inr exampleRate), Returns 0,
           CallUpdateExchangeRate, MutexSched, Acquired 1, FetchSettles 1 (Inr exampleRate),
           Returns 1] exampleController) =
     Some \<lparr> conversionDate = 1000, conversionRate = 91, currentCurrency = ''usd'',
            nativeCurrency = ''ETH'', pendingCurrentCurrency = None,
            pendingNativeCurrency = None, usdConversionRate = None \<rparr> \<and>
   map_option outcomes
     (run [MutexSched, Acquired 0, FetchSettles 0 (Inr exampleRate), Returns 0,
           CallUpdateExchangeRate, MutexSched, Acquired 1,
           FetchSettles 1 (Inl (FetchFailure ''down'')), Returns 1] exampleController) =
     Some [Done (Inr None), Done (Inl (FetchFailure ''down''))]"
  by (simp add: model_defs example_defs)

subsection \<open>Configuration at construction (claim C8)\<close>

text \<open>
  C8, as amended. The constructor takes an optional partial state, spread over the default
  state, the include-USD-rate flag, \<open>false\<close> by default, and the rate source, the
  crypto-compare fetch by default. The refresh interval is not among its parameters: it is
  180000 ms whatever the arguments.
\<close>

theorem constructor_configuration:
  "interval (new_CurrencyRateController d s i f) = 180000 \<and>
   state (new_CurrencyRateController d s i f) =
     (case s of None \<Rightarrow> defaultState | Some x \<Rightarrow> spread defaultState x) \<and>
   includeUsdRate (new_CurrencyRateController d s i f) =
     (case i of None \<Rightarrow> False | Some b \<Rightarrow> b) \<and>
   fetchExchangeRate (new_CurrencyRateController d s i f) =
     (case f of None \<Rightarrow> d | Some g \<Rightarrow> g)"
  by (simp add: new_CurrencyRateController_def poll_def)

text \<open>No choice of constructor arguments gives another interval.\<close>

theorem constructor_configuration_counterexample:
  "\<not> (\<exists>d s i f.
        interval (new_CurrencyRateController d s i f :: (int, unit) CurrencyRateController)
          \<noteq> 180000)"
  by (simp add: new_CurrencyRateController_def poll_def)

subsection \<open>The address book (claim C9)\<close>

text \<open>
  C9. \<open>set(address, name, chainId, memo)\<close> returns \<open>false\<close> and leaves the state as it is
  when \<open>isValidAddress\<close> rejects the address. Otherwise it returns \<open>true\<close>, and the
  address book maps the address to the entry of the four values, with \<open>chainId\<close> 1 and an
  empty \<open>memo\<close> when these are omitted; the other entries are unchanged.
\<close>

theorem AddressBookController_set_spec:
  "(\<not> isValidAddress a \<longrightarrow>
      AddressBookController_set isValidAddress a n c m st = (False, st)) \<and>
   (isValidAddress a \<longrightarrow>
      fst (AddressBookController_set isValidAddress a n c m st) = True \<and>
      addressBook (snd (AddressBookController_set isValidAddress a n c m st)) a =
        Some \<lparr> address = a, name = n,
               chainId = (case c of None \<Rightarrow> 1 | Some x \<Rightarrow> x),
               memo = (case m of None \<Rightarrow> '''' | Some x \<Rightarrow> x) \<rparr> \<and>
      (\<forall>a'. a' \<noteq> a \<longrightarrow>
         addressBook (snd (AddressBookController_set isValidAddress a n c m st)) a' =
         addressBook st a'))"
  by (simp add: AddressBookController_set_def update_addressBook_def extend'_def Let_def)

theorem AddressBookController_set_spec_witness:
  "\<not> exampleValid ''alice'' \<and>
   AddressBookController_set exampleValid ''alice'' ''Alice'' None None
     \<lparr>addressBook = Map.empty\<rparr> = (False, \<lparr>addressBook = Map.empty\<rparr>) \<and>
   exampleValid ''0x32Be343B94f860124dC4fEe278FDCBD38C102D88'' \<and>
   fst (AddressBookController_set exampleValid ''0x32Be343B94f860124dC4fEe278FDCBD38C102D88''
     ''Alice'' None None \<lparr>addressBook = Map.empty\<rparr>) = True \<and>
   addressBook (snd (AddressBookController_set exampleValid
     ''0x32Be343B94f860124dC4fEe278FDCBD38C102D88'' ''Alice'' None None
     \<lparr>addressBook = Map.empty\<rparr>)) ''0x32Be343B94f860124dC4fEe278FDCBD38C102D88'' =
     Some \<lparr> address = ''0x32Be343B94f860124dC4fEe278FDCBD38C102D88'', name = ''Alice'',
            chainId = 1, memo = '''' \<rparr>"
proof -
  have bad: "\<not> exampleValid ''alice''"
    and good: "exampleValid ''0x32Be343B94f860124dC4fEe278FDCBD38C102D88''"
    by (simp_all add: exampleValid_def)
  from AddressBookController_set_spec
         [of exampleValid "''alice''" "''Alice''" None None "\<lparr>addressBook = Map.empty\<rparr>"]
       AddressBookController_set_spec
         [of exampleValid "''0x32Be343B94f860124dC4fEe278FDCBD38C102D88''" "''Alice''" None None
            "\<lparr>addressBook = Map.empty\<rparr>"]
       bad good
  show ?thesis by simp
qed

subsection \<open>The wasm endowment (claim C10)\<close>

text \<open>
  C10. Whatever the builder options, \<open>specificationBuilder\<close> returns the specification of
  permission type \<open>Endowment\<close>, target key \<open>endowment:wasm\<close> and no allowed caveats,
  whose getter returns the list of the one name \<open>WebAssembly\<close> whatever its options; two
  calls return equal specifications; and the frozen builder object carries that target
  key and that function.
\<close>

theorem wasm_specification:
  "permissionType (specificationBuilder b) = Endowment \<and>
   targetKey (specificationBuilder b) = ''endowment:wasm'' \<and>
   allowedCaveats (specificationBuilder b) = None \<and>
   endowmentGetter (specificationBuilder b) g = [''WebAssembly''] \<and>
   specificationBuilder b = specificationBuilder b' \<and>
   builderSpecificationBuilder webAssemblyEndowmentBuilder b = specificationBuilder b \<and>
   builderTargetKey webAssemblyEndowmentBuilder = ''endowment:wasm''"
  by (simp add: specificationBuilder_def webAssemblyEndowmentBuilder_def permissionName_def)

end
